theory Spec2Isabelle
  imports Complex_Main "HOL-Library.Word" "HOL-Library.Sublist"
begin

section \<open>The edit page of a blog post: \<^verbatim>\<open>pages/blogposts/edit/[id].tsx\<close>\<close>

text \<open>
  The page is a React function component. Its eleven \<^verbatim>\<open>useState\<close> cells are one record;
  an event handler is a function from the state before to the state after, together with
  the list of effects it issued (HTTP requests, console output, timers), in the order of
  the source. What an awaited promise settles to is a parameter of the handler; the
  setters called after an \<^verbatim>\<open>await\<close> write constants and parts of the response only, so
  the handler is given as one step, with no other handler between request and response.
\<close>

subsection \<open>JavaScript strings\<close>

text \<open>
  A JavaScript string is a sequence of UTF-16 code units; \<^verbatim>\<open>slice\<close>, \<^verbatim>\<open>length\<close> and the
  regular expressions of this file (none has the \<^verbatim>\<open>u\<close> flag) all work on code units.
\<close>

type_synonym jschar = "16 word"
type_synonym jsstring = "jschar list"

definition js :: "string \<Rightarrow> jsstring" where
  "js cs = map (\<lambda>c. of_nat (of_char c)) cs"

definition hash :: jschar where
  "hash = 0x23"

text \<open>The character classes \<^verbatim>\<open>\d\<close> = [0-9] and \<^verbatim>\<open>\w\<close> = [A-Za-z0-9_].\<close>

definition is_digit :: "jschar \<Rightarrow> bool" where
  "is_digit c \<longleftrightarrow> 0x30 \<le> c \<and> c \<le> 0x39"

definition is_word_char :: "jschar \<Rightarrow> bool" where
  "is_word_char c \<longleftrightarrow>
     (0x61 \<le> c \<and> c \<le> 0x7A) \<or> (0x41 \<le> c \<and> c \<le> 0x5A) \<or> is_digit c \<or> c = 0x5F"

text \<open>\<^verbatim>\<open>s.slice(0, n)\<close> and \<^verbatim>\<open>s.slice(n)\<close> for a non-negative integer \<open>n\<close>: an offset beyond
  the end is clamped to the length, as \<^const>\<open>take\<close> and \<^const>\<open>drop\<close> do.\<close>

definition slice_to :: "jsstring \<Rightarrow> nat \<Rightarrow> jsstring" where
  "slice_to s n = take n s"

definition slice_from :: "jsstring \<Rightarrow> nat \<Rightarrow> jsstring" where
  "slice_from s n = drop n s"

subsection \<open>The regular expressions\<close>

text \<open>
  The three patterns of the file, \<^verbatim>\<open>/#(\w*)$/\<close>, \<^verbatim>\<open>/#\w*$/\<close> and \<^verbatim>\<open>/#(\d+)/g\<close>, are
  sequences of atoms of four kinds: a literal character, a greedy repetition of a
  character class with a least count (\<open>0\<close> for \<^verbatim>\<open>*\<close>, \<open>1\<close> for \<^verbatim>\<open>+\<close>), and the assertion \<^verbatim>\<open>$\<close>
  (end of input: no pattern has the \<^verbatim>\<open>m\<close> flag). The group of the first and the third
  pattern encloses the second atom, so capture 1 is what the second atom consumed.
\<close>

datatype cclass = WordChar | Digit

fun in_class :: "cclass \<Rightarrow> jschar \<Rightarrow> bool" where
  "in_class WordChar c = is_word_char c"
| "in_class Digit c = is_digit c"

datatype atom = Lit jschar | Rep nat cclass | Eoi

definition re_hash_word_end :: "atom list" where
  "re_hash_word_end = [Lit hash, Rep 0 WordChar, Eoi]"

definition re_hash_digits :: "atom list" where
  "re_hash_digits = [Lit hash, Rep 1 Digit]"

text \<open>The first alternative that succeeds, in the order tried.\<close>

fun first_some :: "'a option list \<Rightarrow> 'a option" where
  "first_some [] = None"
| "first_some (None # xs) = first_some xs"
| "first_some (Some x # xs) = Some x"

text \<open>
  The backtracking matcher of ECMAScript, at a fixed start: the pieces consumed by each
  atom and the input left over, or \<open>None\<close>. A greedy repetition first takes the longest run
  of the class and gives characters back one at a time, down to its least count, until
  the rest of the pattern matches.
\<close>

fun match_here :: "atom list \<Rightarrow> jsstring \<Rightarrow> (jsstring list \<times> jsstring) option" where
  "match_here [] s = Some ([], s)"
| "match_here (Lit c # r) s =
     (case s of
        [] \<Rightarrow> None
      | x # t \<Rightarrow>
          if x = c then map_option (\<lambda>(ps, rest). ([x] # ps, rest)) (match_here r t)
          else None)"
| "match_here (Eoi # r) s =
     (if s = [] then map_option (\<lambda>(ps, rest). ([] # ps, rest)) (match_here r s) else None)"
| "match_here (Rep lo cl # r) s =
     first_some
       (map (\<lambda>k. map_option (\<lambda>(ps, rest). (take k s # ps, rest)) (match_here r (drop k s)))
          (rev [lo ..< Suc (length (takeWhile (in_class cl) s))]))"

text \<open>
  The search of \<^verbatim>\<open>RegExp.prototype.exec\<close>: the leftmost start at which the pattern
  matches, every start from \<open>0\<close> to the length being tried in turn. The result is the text
  before the match, the pieces, and the text after the match.
\<close>

fun search :: "atom list \<Rightarrow> jsstring \<Rightarrow> (jsstring \<times> jsstring list \<times> jsstring) option" where
  "search p [] = map_option (\<lambda>(ps, rest). ([], ps, rest)) (match_here p [])"
| "search p (x # t) =
     (case match_here p (x # t) of
        Some (ps, rest) \<Rightarrow> Some ([], ps, rest)
      | None \<Rightarrow> map_option (\<lambda>(pre, ps, rest). (x # pre, ps, rest)) (search p t))"

text \<open>What a match consumes and what it leaves add up to the input: the recursion of
  \<open>matchAll\<close> below ends.\<close>

lemma first_some_Some:
  "first_some xs = Some y \<Longrightarrow> Some y \<in> set xs"
  by (induction xs rule: first_some.induct) auto

lemma match_here_length:
  "match_here p s = Some (ps, rest) \<Longrightarrow> length (concat ps) + length rest = length s"
proof (induction p s arbitrary: ps rest rule: match_here.induct)
  case (1 s)
  then show ?case by simp
next
  case (2 c r s)
  from "2.prems" obtain x t where s: "s = x # t" and x: "x = c"
    by (cases s) (auto split: if_splits)
  with "2.prems" obtain ps' where ps: "ps = [x] # ps'" and r: "match_here r t = Some (ps', rest)"
    by (cases "match_here r t") auto
  from "2.IH" [OF s x r] ps s show ?case by simp
next
  case (3 r s)
  from "3.prems" have s: "s = []" by (simp split: if_splits)
  with "3.prems" obtain ps' where ps: "ps = [] # ps'" and r: "match_here r s = Some (ps', rest)"
    by (cases "match_here r []") auto
  from "3.IH" [OF s r] ps show ?case by simp
next
  case (4 lo cl r s)
  from "4.prems" have "first_some (map (\<lambda>k. map_option (\<lambda>(ps, rest). (take k s # ps, rest)) (match_here r (drop k s)))
          (rev [lo ..< Suc (length (takeWhile (in_class cl) s))])) = Some (ps, rest)"
    by (simp only: match_here.simps)
  then have "Some (ps, rest) \<in> set (map (\<lambda>k. map_option (\<lambda>(ps, rest). (take k s # ps, rest)) (match_here r (drop k s)))
          (rev [lo ..< Suc (length (takeWhile (in_class cl) s))]))"
    by (rule first_some_Some)
  then obtain k where k: "k \<in> set (rev [lo ..< Suc (length (takeWhile (in_class cl) s))])"
    and m: "map_option (\<lambda>(ps, rest). (take k s # ps, rest)) (match_here r (drop k s)) = Some (ps, rest)"
    unfolding set_map image_iff by metis
  from m obtain ps' where ps: "ps = take k s # ps'" and r: "match_here r (drop k s) = Some (ps', rest)"
    by (cases "match_here r (drop k s)") (auto simp del: match_here.simps)
  from k have "k \<le> length (takeWhile (in_class cl) s)" by auto
  then have kl: "k \<le> length s"
    using length_takeWhile_le [of "in_class cl" s] by linarith
  from "4.IH" [OF k r] have "length (concat ps') + length rest = length s - k" by simp
  with kl ps show ?case by simp
qed

lemma search_length:
  "search p s = Some (pre, ps, rest) \<Longrightarrow> length pre + length (concat ps) + length rest = length s"
proof (induction s arbitrary: pre ps rest)
  case Nil
  then obtain "match_here p [] = Some (ps, rest)" and "pre = []"
    by (cases "match_here p []") auto
  then show ?case using match_here_length [of p "[]" ps rest] by simp
next
  case (Cons x t)
  show ?case
  proof (cases "match_here p (x # t)")
    case None
    with Cons.prems obtain pre' where pre: "pre = x # pre'" and r: "search p t = Some (pre', ps, rest)"
      by (cases "search p t") auto
    from Cons.IH [OF r] pre show ?thesis by simp
  next
    case (Some a)
    with Cons.prems have "match_here p (x # t) = Some (ps, rest)" and "pre = []"
      by (cases a; simp)+
    then show ?thesis using match_here_length [of p "x # t" ps rest] by simp
  qed
qed

text \<open>
  \<^verbatim>\<open>String.prototype.matchAll\<close> with a \<^verbatim>\<open>g\<close> pattern: \<^verbatim>\<open>exec\<close> is repeated, each search
  starting where the last match ended, and one character further after an empty match.
  Each match is given as its list of pieces.
\<close>

function matchAll :: "atom list \<Rightarrow> jsstring \<Rightarrow> jsstring list list" where
  "matchAll p s =
     (case search p s of
        None \<Rightarrow> []
      | Some (pre, ps, rest) \<Rightarrow>
          ps # (if concat ps = [] then (case rest of [] \<Rightarrow> [] | x # t \<Rightarrow> matchAll p t)
                else matchAll p rest))"
  by pat_completeness auto
termination
proof (relation "measure (\<lambda>(p, s). length s)")
  show "wf (measure (\<lambda>(p, s). length s))" by simp
next
  fix p s x2 pre y ps rest x t
  assume "search p s = Some x2" "(pre, y) = x2" "(ps, rest) = y" "rest = x # t"
  then have "search p s = Some (pre, ps, x # t)" by simp
  from search_length [OF this] show "((p, t), (p, s)) \<in> measure (\<lambda>(p, s). length s)" by simp
next
  fix p s x2 pre y ps rest
  assume "search p s = Some x2" "(pre, y) = x2" "(ps, rest) = y" "concat ps \<noteq> []"
  then have m: "search p s = Some (pre, ps, rest)" and "0 < length (concat ps)"
    by (simp_all del: concat_eq_Nil_conv)
  with search_length [OF m] have "length rest < length s" by linarith
  then show "((p, rest), (p, s)) \<in> measure (\<lambda>(p, s). length s)" by simp
qed

declare matchAll.simps [simp del]

text \<open>Capture 1 of a match: the piece of the second atom (\<^verbatim>\<open>undefined\<close>, which the page never
  meets, is the empty text here).\<close>

fun capture1 :: "jsstring list \<Rightarrow> jsstring" where
  "capture1 (p0 # p1 # ps) = p1"
| "capture1 ps = []"

text \<open>\<^verbatim>\<open>s.match(re)\<close> without the \<^verbatim>\<open>g\<close> flag: \<^verbatim>\<open>null\<close>, or the first match.\<close>

definition match_first :: "atom list \<Rightarrow> jsstring \<Rightarrow> jsstring list option" where
  "match_first p s = (case search p s of None \<Rightarrow> None | Some (pre, ps, rest) \<Rightarrow> Some ps)"

text \<open>\<^verbatim>\<open>s.replace(re, repl)\<close> without the \<^verbatim>\<open>g\<close> flag: the first match is replaced. The
  replacement text of the page is \<^verbatim>\<open>#\<close> followed by a number, where no \<^verbatim>\<open>$\<close> occurs, so
  it is inserted as it is.\<close>

definition replace_first :: "atom list \<Rightarrow> jsstring \<Rightarrow> jsstring \<Rightarrow> jsstring" where
  "replace_first p repl s =
     (case search p s of None \<Rightarrow> s | Some (pre, ps, rest) \<Rightarrow> pre @ repl @ rest)"

subsection \<open>Numbers\<close>

text \<open>
  A JavaScript number is an IEEE double: a finite double is given by its value, a
  rational (\<open>-0\<close>, which the page cannot tell from \<open>0\<close>, is \<open>0\<close>), beside \<^verbatim>\<open>NaN\<close> and the two
  infinities.
\<close>

datatype number = Num rat | NaN | Infinity | NegInfinity

text \<open>The number of binary and of decimal digits of a natural number, and the powers of
  two and ten with an integer exponent.\<close>

fun bitlen :: "nat \<Rightarrow> nat" where
  "bitlen n = (if n = 0 then 0 else Suc (bitlen (n div 2)))"

declare bitlen.simps [simp del]

fun declen :: "nat \<Rightarrow> nat" where
  "declen n = (if n = 0 then 0 else Suc (declen (n div 10)))"

declare declen.simps [simp del]

definition pow2 :: "int \<Rightarrow> rat" where
  "pow2 k = (if 0 \<le> k then 2 ^ nat k else 1 / 2 ^ nat (- k))"

definition pow10 :: "int \<Rightarrow> rat" where
  "pow10 k = (if 0 \<le> k then 10 ^ nat k else 1 / 10 ^ nat (- k))"

text \<open>For \<open>v > 0\<close>, the exponent \<open>d\<close> with \<open>2^d \<le> v < 2^(d+1)\<close>, and the same for ten: the digit
  counts of numerator and denominator fix it up to one.\<close>

definition floor_log2 :: "rat \<Rightarrow> int" where
  "floor_log2 v =
     (let (p, q) = quotient_of v;
          d = int (bitlen (nat p)) - int (bitlen (nat q))
      in if pow2 d \<le> v then d else d - 1)"

definition floor_log10 :: "rat \<Rightarrow> int" where
  "floor_log10 v =
     (let (p, q) = quotient_of v;
          d = int (declen (nat p)) - int (declen (nat q))
      in if pow10 d \<le> v then d else d - 1)"

definition round_half_even :: "rat \<Rightarrow> int" where
  "round_half_even v =
     (let f = \<lfloor>v\<rfloor>; d = v - of_int f
      in if d < 1 / 2 then f else if 1 / 2 < d then f + 1 else if even f then f else f + 1)"

text \<open>
  The double of a real value: the value is rounded to 53 significant bits (to a multiple of
  \<open>2^-1074\<close> in the subnormal range), to the nearest and to the even one of two nearest; a
  result of \<open>2^1024\<close> or more is infinite.
\<close>

definition to_double :: "rat \<Rightarrow> number" where
  "to_double v =
     (if v = 0 then Num 0
      else
        let a = \<bar>v\<bar>;
            e = max (floor_log2 a - 52) (- 1074);
            r = of_int (round_half_even (a / pow2 e)) * pow2 e
        in if pow2 1024 \<le> r then (if v < 0 then NegInfinity else Infinity)
           else Num (if v < 0 then - r else r))"

fun nat_digits :: "nat \<Rightarrow> jsstring" where
  "nat_digits n =
     (if n < 10 then [of_nat (48 + n)] else nat_digits (n div 10) @ [of_nat (48 + n mod 10)])"

declare nat_digits.simps [simp del]

text \<open>
  \<^verbatim>\<open>`${x}`\<close>, the text of a number in a template literal (\<^verbatim>\<open>Number::toString\<close>). For a
  positive double \<open>x\<close> it is made of the digits \<open>s\<close>, their count \<open>k\<close> and the exponent \<open>n\<close>
  with \<open>k\<close> least such that \<open>s * 10^(n-k)\<close> reads back as \<open>x\<close>, and of the \<open>s\<close> that do, the one
  nearest to \<open>x\<close> (the even one of two). Below, \<open>candidates x n0 k\<close> is that choice among the
  two \<open>k\<close>-digit neighbours of \<open>x\<close>, empty when neither reads back as \<open>x\<close>.
\<close>

definition candidates :: "rat \<Rightarrow> int \<Rightarrow> nat \<Rightarrow> int list" where
  "candidates x n0 k =
     (let scale = pow10 (n0 - int k);
          lo = \<lfloor>x / scale\<rfloor>;
          ok = filter (\<lambda>c. to_double (of_int c * scale) = Num x) [lo, lo + 1]
      in case ok of
           [] \<Rightarrow> []
         | [c] \<Rightarrow> [c]
         | c # d # cs \<Rightarrow>
             (let dc = \<bar>of_int c * scale - x\<bar>; dd = \<bar>of_int d * scale - x\<bar>
              in if dc < dd then [c] else if dd < dc then [d] else if even c then [c] else [d]))"

text \<open>Seventeen digits tell any two doubles apart, so the search ends there; a digit
  string rounded up to \<open>10^k\<close> is the digit 1 with the exponent one higher.\<close>

definition shortest_digits :: "rat \<Rightarrow> int \<times> nat \<times> int" where
  "shortest_digits x =
     (let n0 = floor_log10 x + 1
      in case List.find (\<lambda>k. candidates x n0 k \<noteq> []) [1 ..< 18] of
           None \<Rightarrow> (\<lfloor>x / pow10 (n0 - 17)\<rfloor>, 17, n0)
         | Some k \<Rightarrow>
             (case candidates x n0 k of
                [] \<Rightarrow> (0, k, n0)
              | c # cs \<Rightarrow> if c = 10 ^ k then (c div 10, k, n0 + 1) else (c, k, n0)))"

text \<open>The layout: plain digits with zeros appended, a decimal point inside the digits,
  \<^verbatim>\<open>0.\<close> with zeros before the digits, or the exponent notation when \<open>n\<close> is above 21 or
  below -5.\<close>

definition render_digits :: "int \<times> nat \<times> int \<Rightarrow> jsstring" where
  "render_digits snk =
     (let (s, k, n) = snk; ds = nat_digits (nat s)
      in if int k \<le> n \<and> n \<le> 21 then ds @ replicate (nat (n - int k)) 0x30
         else if 0 < n \<and> n \<le> 21 then take (nat n) ds @ [0x2E] @ drop (nat n) ds
         else if - 6 < n \<and> n \<le> 0 then [0x30, 0x2E] @ replicate (nat (- n)) 0x30 @ ds
         else
           let e = n - 1;
               ex = [0x65, if e < 0 then 0x2D else 0x2B] @ nat_digits (nat \<bar>e\<bar>)
           in if k = 1 then ds @ ex else take 1 ds @ [0x2E] @ drop 1 ds @ ex)"

text \<open>An integer up to \<open>2^53\<close> is a double, and so is every integer below it: no shorter
  digit string reads back as it, and its text is its own decimal digits.\<close>

definition positive_toString :: "rat \<Rightarrow> jsstring" where
  "positive_toString x =
     (if of_int \<lfloor>x\<rfloor> = x \<and> x \<le> 2 ^ 53 then nat_digits (nat \<lfloor>x\<rfloor>)
      else render_digits (shortest_digits x))"

fun number_toString :: "number \<Rightarrow> jsstring" where
  "number_toString NaN = js ''NaN''"
| "number_toString Infinity = js ''Infinity''"
| "number_toString NegInfinity = js ''-Infinity''"
| "number_toString (Num x) =
     (if x = 0 then [0x30]
      else if x < 0 then 0x2D # positive_toString (- x)
      else positive_toString x)"

text \<open>\<^verbatim>\<open>parseInt(s)\<close> with no radix: leading white space is dropped, then a sign, then
  a \<^verbatim>\<open>0x\<close> or \<^verbatim>\<open>0X\<close> prefix (which makes the radix 16); the longest run of digits of the
  radix is the value, of which the result is the double, and no digit at all is \<^verbatim>\<open>NaN\<close>.
  (The standard lets an engine read the decimal digits after the twentieth as zeros; the
  engines round the exact value, as is done here.)\<close>

definition is_white_space :: "jschar \<Rightarrow> bool" where
  "is_white_space c \<longleftrightarrow>
     c \<in> {0x09, 0x0A, 0x0B, 0x0C, 0x0D, 0x20, 0xA0, 0x1680, 0x2028, 0x2029, 0x202F, 0x205F,
          0x3000, 0xFEFF} \<or> (0x2000 \<le> c \<and> c \<le> 0x200A)"

definition digit_val :: "jschar \<Rightarrow> nat option" where
  "digit_val c =
     (if 0x30 \<le> c \<and> c \<le> 0x39 then Some (unat c - 0x30)
      else if 0x61 \<le> c \<and> c \<le> 0x7A then Some (unat c - 0x61 + 10)
      else if 0x41 \<le> c \<and> c \<le> 0x5A then Some (unat c - 0x41 + 10)
      else None)"

definition radix_digit :: "nat \<Rightarrow> jschar \<Rightarrow> bool" where
  "radix_digit R c = (case digit_val c of None \<Rightarrow> False | Some d \<Rightarrow> d < R)"

definition digits_value :: "nat \<Rightarrow> jsstring \<Rightarrow> nat" where
  "digits_value R z =
     foldl (\<lambda>acc c. case digit_val c of None \<Rightarrow> acc | Some d \<Rightarrow> acc * R + d) 0 z"

definition parseInt :: "jsstring \<Rightarrow> number" where
  "parseInt s =
     (let S = dropWhile is_white_space s;
          neg = (case S of [] \<Rightarrow> False | c # t \<Rightarrow> c = 0x2D);
          S1 = (case S of [] \<Rightarrow> S | c # t \<Rightarrow> if c = 0x2B \<or> c = 0x2D then t else S);
          (R, S2) = (case S1 of
                       a # b # t \<Rightarrow> if a = 0x30 \<and> (b = 0x78 \<or> b = 0x58) then (16, t) else (10, S1)
                     | _ \<Rightarrow> (10, S1));
          Z = takeWhile (radix_digit R) S2
      in if Z = [] then NaN
         else to_double (of_int ((if neg then - 1 else 1) * int (digits_value R Z))))"

subsection \<open>The data of the page\<close>

text \<open>The interfaces \<^verbatim>\<open>Template\<close> and \<^verbatim>\<open>BlogPost\<close>; the fields carry a prefix, since the
  state cells below have the same names.\<close>

record template =
  t_id :: number
  t_title :: jsstring

record blogPost =
  p_id :: number
  p_title :: jsstring
  p_description :: jsstring
  p_content :: jsstring
  p_tag :: jsstring
  p_templates :: "template list"

text \<open>The \<^verbatim>\<open>useState\<close> cells, with their initial values.\<close>

record state =
  title :: jsstring
  description :: jsstring
  content :: jsstring
  tag :: jsstring
  error :: "jsstring option"
  success :: "jsstring option"
  loading :: bool
  matchingTemplates :: "template list"
  showTemplatePopup :: bool
  cursorPosition :: nat
  initialLoading :: bool

definition initial_state :: state where
  "initial_state =
     \<lparr>title = [], description = [], content = [], tag = [], error = None, success = None,
      loading = False, matchingTemplates = [], showTemplatePopup = False, cursorPosition = 0,
      initialLoading = True\<rparr>"

text \<open>What the handlers read from outside the state: \<^verbatim>\<open>localStorage.getItem("accessToken")\<close>
  (\<open>None\<close> is \<^verbatim>\<open>null\<close>) and \<^verbatim>\<open>router.query.id\<close> (\<open>None\<close> is \<^verbatim>\<open>undefined\<close>; the route
  \<^verbatim>\<open>[id]\<close> binds one text, so the array form of a query value does not arise).\<close>

record env =
  accessToken :: "jsstring option"
  query_id :: "jsstring option"

text \<open>\<^verbatim>\<open>!x\<close> for a text that may be absent: absent and empty are both falsy.\<close>

fun falsy :: "jsstring option \<Rightarrow> bool" where
  "falsy None = True"
| "falsy (Some v) = (v = [])"

text \<open>\<^verbatim>\<open>x || d\<close>: \<open>x\<close> when it is truthy, else \<open>d\<close>.\<close>

fun or_else :: "jsstring option \<Rightarrow> jsstring \<Rightarrow> jsstring" where
  "or_else None d = d"
| "or_else (Some v) d = (if v = [] then d else v)"

text \<open>\<^verbatim>\<open>`${id}`\<close> and \<^verbatim>\<open>`${token}`\<close> in a template literal.\<close>

fun id_text :: "jsstring option \<Rightarrow> jsstring" where
  "id_text None = js ''undefined''"
| "id_text (Some v) = v"

fun token_text :: "jsstring option \<Rightarrow> jsstring" where
  "token_text None = js ''null''"
| "token_text (Some v) = v"

text \<open>The effects a handler issues. \<open>AxiosGet url title auth\<close> is a GET with the query
  parameter \<^verbatim>\<open>title\<close> and the \<^verbatim>\<open>Authorization\<close> header, each when given;
  \<open>AxiosPut url body auth\<close> is the update request; \<open>SetTimeoutPush path ms\<close> is
  \<^verbatim>\<open>setTimeout(() => router.push(path), ms)\<close>.\<close>

record update_body =
  b_title :: jsstring
  b_description :: jsstring
  b_content :: jsstring
  b_tag :: jsstring
  b_templateIds :: "number list"

datatype effect =
    AxiosGet jsstring "jsstring option" "jsstring option"
  | AxiosPut jsstring update_body jsstring
  | ConsoleError
  | SetTimeoutPush jsstring nat

text \<open>What an awaited request settles to: fulfilled with the part of the response that the
  page reads, or rejected with an error \<open>err\<close>, of which the page reads
  \<^verbatim>\<open>err.response?.data?.error\<close> (\<open>None\<close> when a link of that chain is missing).\<close>

datatype 'a settled = Fulfilled 'a | Rejected "jsstring option"

subsection \<open>The handlers\<close>

text \<open>
  \<^verbatim>\<open>fetchBlogPost\<close>, the effect run when \<^verbatim>\<open>id\<close> changes. The \<^verbatim>\<open>return\<close> for a missing
  \<^verbatim>\<open>id\<close> is before the \<^verbatim>\<open>try\<close>; the \<^verbatim>\<open>return\<close> for a missing token is inside it, so
  the \<^verbatim>\<open>finally\<close> block runs after it. A response without \<^verbatim>\<open>blogPost\<close> makes
  \<^verbatim>\<open>post.title\<close> throw a TypeError, which has no \<^verbatim>\<open>response\<close>.
\<close>

definition fetchBlogPost_try ::
  "env \<Rightarrow> blogPost option settled \<Rightarrow> state \<Rightarrow> state \<times> effect list" where
  "fetchBlogPost_try e outcome s =
     (if falsy (accessToken e)
      then (s\<lparr>error := Some (js ''You need to be logged in to edit posts'')\<rparr>, [])
      else
        let request = AxiosGet (js ''/api/blogposts/'' @ id_text (query_id e)) None
                        (Some (js ''Bearer '' @ token_text (accessToken e)))
        in case outcome of
             Fulfilled (Some post) \<Rightarrow>
               (let s1 = s\<lparr>title := p_title post\<rparr>;
                    s2 = s1\<lparr>description := p_description post\<rparr>;
                    s3 = s2\<lparr>content := p_content post\<rparr>
                in s3\<lparr>tag := p_tag post\<rparr>, [request])
           | Fulfilled None \<Rightarrow>
               (s\<lparr>error := Some (or_else None (js ''Failed to load blog post''))\<rparr>, [request])
           | Rejected err \<Rightarrow>
               (s\<lparr>error := Some (or_else err (js ''Failed to load blog post''))\<rparr>, [request]))"

definition fetchBlogPost ::
  "env \<Rightarrow> blogPost option settled \<Rightarrow> state \<Rightarrow> state \<times> effect list" where
  "fetchBlogPost e outcome s =
     (if falsy (query_id e) then (s, [])
      else
        let (s1, effects) = fetchBlogPost_try e outcome s
        in (s1\<lparr>initialLoading := False\<rparr>, effects))"

text \<open>
  \<^verbatim>\<open>handleTemplateSearch\<close>: the request it sends when called, and what it does once the
  request has settled (\<^verbatim>\<open>codeTemplates || []\<close>: a missing list is the empty list).
  \<^verbatim>\<open>handleContentChange\<close> calls it without awaiting it.
\<close>

definition handleTemplateSearch_request :: "jsstring \<Rightarrow> effect" where
  "handleTemplateSearch_request searchText =
     AxiosGet (js ''/api/codetemplates'') (Some searchText) None"

definition handleTemplateSearch_settled ::
  "template list option settled \<Rightarrow> state \<Rightarrow> state \<times> effect list" where
  "handleTemplateSearch_settled outcome s =
     (case outcome of
        Fulfilled codeTemplates \<Rightarrow>
          (s\<lparr>matchingTemplates := (case codeTemplates of None \<Rightarrow> [] | Some ts \<Rightarrow> ts)\<rparr>, [])
      | Rejected err \<Rightarrow> (s, [ConsoleError]))"

definition handleTemplateSearch ::
  "jsstring \<Rightarrow> template list option settled \<Rightarrow> state \<Rightarrow> state \<times> effect list" where
  "handleTemplateSearch searchText outcome s =
     (let (s1, effects) = handleTemplateSearch_settled outcome s
      in (s1, handleTemplateSearch_request searchText # effects))"

text \<open>\<^verbatim>\<open>handleContentChange\<close>, with \<^verbatim>\<open>e.target.value\<close> and \<^verbatim>\<open>e.target.selectionStart\<close>.\<close>

definition handleContentChange :: "jsstring \<Rightarrow> nat \<Rightarrow> state \<Rightarrow> state \<times> effect list" where
  "handleContentChange newContent currentCursorPosition s =
     (let s1 = s\<lparr>content := newContent\<rparr>;
          s2 = s1\<lparr>cursorPosition := currentCursorPosition\<rparr>
      in case match_first re_hash_word_end (slice_to newContent currentCursorPosition) of
           Some m \<Rightarrow>
             (let searchText = capture1 m
              in if length searchText > 0
                 then (s2\<lparr>showTemplatePopup := True\<rparr>, [handleTemplateSearch_request searchText])
                 else (s2, []))
         | None \<Rightarrow> (s2\<lparr>showTemplatePopup := False\<rparr>, []))"

text \<open>\<^verbatim>\<open>handleTemplateSelect\<close>: it reads \<^verbatim>\<open>content\<close> and \<^verbatim>\<open>cursorPosition\<close> from the state.\<close>

definition handleTemplateSelect :: "template \<Rightarrow> state \<Rightarrow> state" where
  "handleTemplateSelect t s =
     (let beforeCursor =
            replace_first re_hash_word_end (hash # number_toString (t_id t))
              (slice_to (content s) (cursorPosition s));
          afterCursor = slice_from (content s) (cursorPosition s);
          s1 = s\<lparr>content := beforeCursor @ afterCursor\<rparr>
      in s1\<lparr>showTemplatePopup := False\<rparr>)"

definition extractTemplateIds :: "state \<Rightarrow> number list" where
  "extractTemplateIds s =
     map (\<lambda>m. parseInt (capture1 m)) (matchAll re_hash_digits (content s))"

text \<open>
  \<^verbatim>\<open>handleUpdatePost\<close>. The validation \<^verbatim>\<open>return\<close> is before the \<^verbatim>\<open>try\<close>; the \<^verbatim>\<open>return\<close>
  for a missing token is inside it, so \<^verbatim>\<open>finally\<close> runs after it. \<open>outcome\<close> is what
  \<^verbatim>\<open>axios.put\<close> settles to: fulfilled with \<^verbatim>\<open>response.status\<close>, or rejected.
\<close>

definition handleUpdatePost_try ::
  "env \<Rightarrow> nat settled \<Rightarrow> number list \<Rightarrow> state \<Rightarrow> state \<times> effect list" where
  "handleUpdatePost_try e outcome templateIds s =
     (if falsy (accessToken e)
      then (s\<lparr>error := Some (js ''You need to log in to update the blog post.'')\<rparr>, [])
      else
        let request =
              AxiosPut (js ''/api/blogposts/'' @ id_text (query_id e))
                \<lparr>b_title = title s, b_description = description s, b_content = content s,
                 b_tag = tag s, b_templateIds = templateIds\<rparr>
                (js ''Bearer '' @ token_text (accessToken e))
        in case outcome of
             Fulfilled status \<Rightarrow>
               if status = 200
               then (s\<lparr>success := Some (js ''Blog post updated successfully!'')\<rparr>,
                     [request, SetTimeoutPush (js ''/blogposts/'' @ id_text (query_id e)) 2000])
               else (s, [request])
           | Rejected err \<Rightarrow>
               (s\<lparr>error := Some (or_else err (js ''Failed to update blog post.''))\<rparr>, [request]))"

definition handleUpdatePost :: "env \<Rightarrow> nat settled \<Rightarrow> state \<Rightarrow> state \<times> effect list" where
  "handleUpdatePost e outcome s =
     (if title s = [] \<or> description s = [] \<or> content s = [] \<or> tag s = []
      then (s\<lparr>error := Some (js ''All fields are required!'')\<rparr>, [])
      else
        let templateIds = extractTemplateIds s;
            s1 = s\<lparr>loading := True\<rparr>;
            s2 = s1\<lparr>error := None\<rparr>;
            s3 = s2\<lparr>success := None\<rparr>;
            (s4, effects) = handleUpdatePost_try e outcome templateIds s3
        in (s4\<lparr>loading := False\<rparr>, effects))"

section \<open>The words of the specification\<close>

text \<open>
  The text \<open>txt\<close> ends in \<^verbatim>\<open>#\<close> followed by the token \<open>t\<close>, a possibly empty run of word
  characters.
\<close>

definition ends_in_hash_token :: "jsstring \<Rightarrow> jsstring \<Rightarrow> bool" where
  "ends_in_hash_token txt t \<longleftrightarrow> suffix (hash # t) txt \<and> list_all is_word_char t"

text \<open>
  All occurrences of \<^verbatim>\<open>#\<close> followed by one or more digits, in the order of their
  positions: every position of the text is looked at, and where a \<^verbatim>\<open>#\<close> stands before a
  digit, the digits that follow it are listed.
\<close>

fun hash_digit_runs :: "jsstring \<Rightarrow> jsstring list" where
  "hash_digit_runs [] = []"
| "hash_digit_runs (x # t) =
     (if x = hash \<and> (case t of [] \<Rightarrow> False | d # u \<Rightarrow> is_digit d)
      then takeWhile is_digit t # hash_digit_runs t
      else hash_digit_runs t)"

text \<open>The number a text of decimal digits denotes, digit by digit.\<close>

definition decimal_value :: "jsstring \<Rightarrow> int" where
  "decimal_value ds = (\<Sum>i<length ds. (int (unat (ds ! i)) - 48) * 10 ^ (length ds - Suc i))"

section \<open>What the three patterns match\<close>

subsection \<open>\<^verbatim>\<open>#\w*$\<close>: a trailing token\<close>

lemma hash_not_word: "\<not> is_word_char hash"
  by (simp add: is_word_char_def is_digit_def hash_def)

lemma hash_not_digit: "\<not> is_digit hash"
  by (simp add: is_digit_def hash_def)

lemma first_some_all_None:
  "(\<And>x. x \<in> set xs \<Longrightarrow> f x = None) \<Longrightarrow> first_some (map f xs) = None"
  by (induction xs) simp_all

lemma in_class_WordChar: "in_class WordChar = is_word_char"
  by (rule ext) simp

lemma in_class_Digit: "in_class Digit = is_digit"
  by (rule ext) simp

lemma match_word_run_end:
  "match_here [Rep 0 WordChar, Eoi] t =
     (if list_all is_word_char t then Some ([t, []], []) else None)"
proof -
  let ?n = "length (takeWhile is_word_char t)"
  let ?f = "\<lambda>k. map_option (\<lambda>(ps, rest). (take k t # ps, rest)) (match_here [Eoi] (drop k t))"
  have unfold: "match_here [Rep 0 WordChar, Eoi] t = first_some (map ?f (rev [0 ..< Suc ?n]))"
    by (simp only: match_here.simps(4) in_class_WordChar)
  show ?thesis
  proof (cases "list_all is_word_char t")
    case True
    then have "takeWhile is_word_char t = t"
      by (simp add: list_all_iff)
    then have n: "?n = length t" by (rule arg_cong)
    have "rev [0 ..< Suc ?n] = ?n # rev [0 ..< ?n]" by simp
    moreover have "?f ?n = Some ([t, []], [])" using n by simp
    ultimately have "first_some (map ?f (rev [0 ..< Suc ?n])) = Some ([t, []], [])"
      by (simp del: upt_Suc)
    with unfold True show ?thesis by (simp del: match_here.simps)
  next
    case False
    then have "takeWhile is_word_char t \<noteq> t"
      by (metis list_all_iff set_takeWhileD)
    then have less: "?n < length t"
      using length_takeWhile_le [of is_word_char t]
      by (metis le_neq_implies_less takeWhile_eq_take take_all_iff order_refl)
    have "first_some (map ?f (rev [0 ..< Suc ?n])) = None"
    proof (rule first_some_all_None)
      fix k assume "k \<in> set (rev [0 ..< Suc ?n])"
      then have "k < length t" using less by auto
      then show "?f k = None" by simp
    qed
    with unfold False show ?thesis by (simp del: match_here.simps)
  qed
qed

lemma match_hash_word_end:
  "match_here re_hash_word_end s =
     (case s of
        [] \<Rightarrow> None
      | x # t \<Rightarrow> if x = hash \<and> list_all is_word_char t then Some ([[hash], t, []], []) else None)"
proof (cases s)
  case Nil
  then show ?thesis by (simp add: re_hash_word_end_def)
next
  case (Cons x t)
  have "match_here re_hash_word_end (x # t) =
          (if x = hash
           then map_option (\<lambda>(ps, rest). ([x] # ps, rest)) (match_here [Rep 0 WordChar, Eoi] t)
           else None)"
    by (simp add: re_hash_word_end_def del: match_here.simps(4))
  with Cons show ?thesis by (simp add: match_word_run_end del: match_here.simps)
qed

lemma search_hash_word_end_found:
  "list_all is_word_char t \<Longrightarrow>
   search re_hash_word_end (pre @ hash # t) = Some (pre, [[hash], t, []], [])"
proof (induction pre)
  case Nil
  then show ?case by (simp add: match_hash_word_end)
next
  case (Cons a pre)
  have "\<not> list_all is_word_char (pre @ hash # t)"
    by (simp add: hash_not_word)
  then have "match_here re_hash_word_end (a # pre @ hash # t) = None"
    by (simp add: match_hash_word_end)
  with Cons show ?case by simp
qed

lemma search_hash_word_end_sound:
  "search re_hash_word_end s = Some r \<Longrightarrow>
   \<exists>pre t. s = pre @ hash # t \<and> list_all is_word_char t \<and> r = (pre, [[hash], t, []], [])"
proof (induction s arbitrary: r)
  case Nil
  then show ?case by (simp add: match_hash_word_end)
next
  case (Cons x t)
  show ?case
  proof (cases "x = hash \<and> list_all is_word_char t")
    case True
    with Cons.prems have "r = ([], [[hash], t, []], [])"
      by (simp add: match_hash_word_end)
    with True show ?thesis by fastforce
  next
    case False
    then have "match_here re_hash_word_end (x # t) = None"
      by (simp add: match_hash_word_end)
    with Cons.prems obtain r' where r': "search re_hash_word_end t = Some r'"
      and r: "r = (case r' of (pre, ps, rest) \<Rightarrow> (x # pre, ps, rest))"
      by (cases "search re_hash_word_end t") auto
    from Cons.IH [OF r'] obtain pre u where
      "t = pre @ hash # u" "list_all is_word_char u" "r' = (pre, [[hash], u, []], [])"
      by blast
    with r have "x # t = (x # pre) @ hash # u \<and> list_all is_word_char u
                 \<and> r = (x # pre, [[hash], u, []], [])"
      by simp
    then show ?thesis by blast
  qed
qed

lemma search_hash_word_end_none:
  "(\<And>t. \<not> ends_in_hash_token s t) \<Longrightarrow> search re_hash_word_end s = None"
proof (rule ccontr)
  assume no: "\<And>t. \<not> ends_in_hash_token s t" and "search re_hash_word_end s \<noteq> None"
  then obtain r where "search re_hash_word_end s = Some r" by blast
  from search_hash_word_end_sound [OF this] obtain pre t where
    "s = pre @ hash # t" "list_all is_word_char t" by blast
  then have "ends_in_hash_token s t" by (simp add: ends_in_hash_token_def suffix_def)
  with no show False by blast
qed

lemma search_hash_word_end_token:
  assumes "ends_in_hash_token s t"
  shows "search re_hash_word_end s = Some (take (length s - Suc (length t)) s, [[hash], t, []], [])"
proof -
  from assms obtain pre where s: "s = pre @ hash # t" and w: "list_all is_word_char t"
    by (auto simp: ends_in_hash_token_def suffix_def)
  from s have "take (length s - Suc (length t)) s = pre" by simp
  with search_hash_word_end_found [OF w, of pre] s show ?thesis by simp
qed

lemma match_first_token:
  "ends_in_hash_token s t \<Longrightarrow> match_first re_hash_word_end s = Some [[hash], t, []]"
  by (simp add: match_first_def search_hash_word_end_token)

lemma match_first_none:
  "(\<And>t. \<not> ends_in_hash_token s t) \<Longrightarrow> match_first re_hash_word_end s = None"
  by (simp add: match_first_def search_hash_word_end_none)

lemma ends_in_hash_token_unique:
  assumes "ends_in_hash_token s t" and "ends_in_hash_token s u"
  shows "t = u"
proof -
  from assms(1) have "match_first re_hash_word_end s = Some [[hash], t, []]"
    by (rule match_first_token)
  moreover from assms(2) have "match_first re_hash_word_end s = Some [[hash], u, []]"
    by (rule match_first_token)
  ultimately show ?thesis by simp
qed

lemma ends_in_hash_token_last:
  assumes "ends_in_hash_token s t"
  shows "s \<noteq> [] \<and> (last s = hash \<or> is_word_char (last s))"
proof -
  from assms obtain pre where s: "s = pre @ hash # t" and w: "list_all is_word_char t"
    by (auto simp: ends_in_hash_token_def suffix_def)
  show ?thesis
  proof (cases "t = []")
    case True
    with s show ?thesis by simp
  next
    case False
    with s have "last s = last t" by simp
    moreover from False w have "is_word_char (last t)"
      by (simp add: list_all_iff)
    ultimately show ?thesis using s by simp
  qed
qed

lemma ends_in_hash_tokenI:
  "txt = pre @ hash # t \<Longrightarrow> list_all is_word_char t \<Longrightarrow> ends_in_hash_token txt t"
  by (simp add: ends_in_hash_token_def suffix_def)

subsection \<open>\<^verbatim>\<open>#\d+\<close> with the \<^verbatim>\<open>g\<close> flag: every reference\<close>

lemma takeWhile_digit_nonempty:
  "takeWhile is_digit t \<noteq> [] \<longleftrightarrow> (case t of [] \<Rightarrow> False | d # u \<Rightarrow> is_digit d)"
  by (cases t) simp_all

lemma match_digit_run:
  "match_here [Rep 1 Digit] t =
     (if takeWhile is_digit t \<noteq> [] then Some ([takeWhile is_digit t], dropWhile is_digit t)
      else None)"
proof -
  let ?n = "length (takeWhile is_digit t)"
  let ?f = "\<lambda>k. map_option (\<lambda>(ps, rest). (take k t # ps, rest)) (match_here [] (drop k t))"
  have unfold: "match_here [Rep 1 Digit] t = first_some (map ?f (rev [1 ..< Suc ?n]))"
    by (simp only: match_here.simps(4) in_class_Digit)
  show ?thesis
  proof (cases "takeWhile is_digit t = []")
    case True
    with unfold show ?thesis by simp
  next
    case False
    then have "1 \<le> ?n" by (simp add: Suc_le_eq)
    then have "rev [1 ..< Suc ?n] = ?n # rev [1 ..< ?n]" by simp
    moreover have "?f ?n = Some ([takeWhile is_digit t], dropWhile is_digit t)"
      by (simp add: takeWhile_eq_take [symmetric] dropWhile_eq_drop [symmetric])
    ultimately have "first_some (map ?f (rev [1 ..< Suc ?n]))
                     = Some ([takeWhile is_digit t], dropWhile is_digit t)"
      by (simp del: upt_Suc)
    with unfold False show ?thesis by (simp del: match_here.simps)
  qed
qed

lemma match_hash_digits:
  "match_here re_hash_digits s =
     (case s of
        [] \<Rightarrow> None
      | x # t \<Rightarrow>
          if x = hash \<and> takeWhile is_digit t \<noteq> []
          then Some ([[hash], takeWhile is_digit t], dropWhile is_digit t) else None)"
proof (cases s)
  case Nil
  then show ?thesis by (simp add: re_hash_digits_def)
next
  case (Cons x t)
  have "match_here re_hash_digits (x # t) =
          (if x = hash
           then map_option (\<lambda>(ps, rest). ([x] # ps, rest)) (match_here [Rep 1 Digit] t)
           else None)"
    by (simp add: re_hash_digits_def del: match_here.simps(4))
  with Cons match_digit_run [of t] show ?thesis by (simp del: match_here.simps)
qed

lemma hash_digit_runs_skip:
  "list_all is_digit ds \<Longrightarrow> hash_digit_runs (ds @ rest) = hash_digit_runs rest"
  by (induction ds) (auto simp: hash_not_digit)

lemma hash_digit_runs_hash:
  assumes "takeWhile is_digit t \<noteq> []"
  shows "hash_digit_runs (hash # t) = takeWhile is_digit t # hash_digit_runs (dropWhile is_digit t)"
proof -
  have "list_all is_digit (takeWhile is_digit t)"
    by (simp add: list_all_iff) (meson set_takeWhileD)
  then have "hash_digit_runs (takeWhile is_digit t @ dropWhile is_digit t)
             = hash_digit_runs (dropWhile is_digit t)"
    by (rule hash_digit_runs_skip)
  then have "hash_digit_runs t = hash_digit_runs (dropWhile is_digit t)" by simp
  with assms show ?thesis by (simp add: takeWhile_digit_nonempty)
qed

lemma search_hash_digits:
  "case search re_hash_digits s of
     None \<Rightarrow> hash_digit_runs s = []
   | Some (pre, ps, rest) \<Rightarrow>
       \<exists>ds. ds \<noteq> [] \<and> ps = [[hash], ds] \<and> hash_digit_runs s = ds # hash_digit_runs rest"
proof (induction s)
  case Nil
  then show ?case by (simp add: match_hash_digits)
next
  case (Cons x t)
  show ?case
  proof (cases "x = hash \<and> takeWhile is_digit t \<noteq> []")
    case True
    then have "search re_hash_digits (x # t)
               = Some ([], [[hash], takeWhile is_digit t], dropWhile is_digit t)"
      by (simp add: match_hash_digits)
    with True hash_digit_runs_hash [of t] show ?thesis by simp
  next
    case False
    then have m: "match_here re_hash_digits (x # t) = None"
      by (simp add: match_hash_digits)
    from False have r: "hash_digit_runs (x # t) = hash_digit_runs t"
      by (simp add: takeWhile_digit_nonempty [symmetric])
    show ?thesis
    proof (cases "search re_hash_digits t")
      case None
      with Cons m r show ?thesis by simp
    next
      case (Some a)
      obtain pre ps rest where a: "a = (pre, ps, rest)" by (cases a)
      with Some Cons m r show ?thesis by simp
    qed
  qed
qed

lemma matchAll_hash_digits:
  "matchAll re_hash_digits s = map (\<lambda>ds. [[hash], ds]) (hash_digit_runs s)"
proof (induction s rule: length_induct)
  case (1 s)
  show ?case
  proof (cases "search re_hash_digits s")
    case None
    with search_hash_digits [of s] show ?thesis
      by (simp add: matchAll.simps [of _ s])
  next
    case (Some a)
    obtain pre ps rest where a: "a = (pre, ps, rest)" by (cases a)
    with Some search_hash_digits [of s] obtain ds where ds: "ds \<noteq> []" "ps = [[hash], ds]"
      and runs: "hash_digit_runs s = ds # hash_digit_runs rest"
      by auto
    from Some a have found: "search re_hash_digits s = Some (pre, ps, rest)" by simp
    from search_length [OF found] ds have "length rest < length s" by simp
    with 1 have "matchAll re_hash_digits rest = map (\<lambda>ds. [[hash], ds]) (hash_digit_runs rest)"
      by blast
    with found ds runs show ?thesis
      by (simp add: matchAll.simps [of _ s])
  qed
qed

lemma hash_digit_runs_digits:
  "ds \<in> set (hash_digit_runs s) \<Longrightarrow> ds \<noteq> [] \<and> list_all is_digit ds"
proof (induction s)
  case Nil
  then show ?case by simp
next
  case (Cons x t)
  show ?case
  proof (cases "x = hash \<and> takeWhile is_digit t \<noteq> []")
    case True
    have "list_all is_digit (takeWhile is_digit t)"
      by (simp add: list_all_iff) (meson set_takeWhileD)
    moreover from True have "hash_digit_runs (x # t) = takeWhile is_digit t # hash_digit_runs t"
      using takeWhile_digit_nonempty [of t] by simp
    ultimately show ?thesis using Cons True by auto
  next
    case False
    then have "hash_digit_runs (x # t) = hash_digit_runs t"
      using takeWhile_digit_nonempty [of t] by auto
    with Cons show ?thesis by simp
  qed
qed

subsection \<open>\<^verbatim>\<open>parseInt\<close> on a run of digits\<close>

lemma digit_not_white_space: "is_digit c \<Longrightarrow> \<not> is_white_space c"
  by (auto simp: is_digit_def is_white_space_def word_le_nat_alt)

lemma digit_not_sign: "is_digit c \<Longrightarrow> c \<noteq> 0x2B \<and> c \<noteq> 0x2D"
  by (auto simp: is_digit_def)

lemma digit_not_x: "is_digit c \<Longrightarrow> c \<noteq> 0x78 \<and> c \<noteq> 0x58"
  by (auto simp: is_digit_def)

lemma digit_val_digit: "is_digit c \<Longrightarrow> digit_val c = Some (unat c - 48)"
  by (simp add: is_digit_def digit_val_def)

lemma digit_unat: "is_digit c \<Longrightarrow> 48 \<le> unat c \<and> unat c \<le> 57"
  by (simp add: is_digit_def word_le_nat_alt)

lemma digit_radix_10: "is_digit c \<Longrightarrow> radix_digit 10 c"
proof -
  assume c: "is_digit c"
  from digit_unat [OF c] have "unat c - 48 < 10" by linarith
  with c show ?thesis by (simp add: radix_digit_def digit_val_digit)
qed

lemma digits_value_snoc:
  "is_digit c \<Longrightarrow> digits_value 10 (z @ [c]) = digits_value 10 z * 10 + (unat c - 48)"
  by (simp add: digits_value_def digit_val_digit)

lemma decimal_value_snoc:
  "decimal_value (z @ [c]) = 10 * decimal_value z + (int (unat c) - 48)"
proof -
  have "(\<Sum>i<length z. (int (unat ((z @ [c]) ! i)) - 48) * 10 ^ (length (z @ [c]) - Suc i))
        = (\<Sum>i<length z. 10 * ((int (unat (z ! i)) - 48) * 10 ^ (length z - Suc i)))"
  proof (rule sum.cong)
    fix i assume "i \<in> {..<length z}"
    then have i: "i < length z" by simp
    then have "length (z @ [c]) - Suc i = Suc (length z - Suc i)" by simp
    with i show "(int (unat ((z @ [c]) ! i)) - 48) * 10 ^ (length (z @ [c]) - Suc i)
                 = 10 * ((int (unat (z ! i)) - 48) * 10 ^ (length z - Suc i))"
      by (simp add: nth_append)
  qed simp
  then show ?thesis
    by (simp add: decimal_value_def sum_distrib_left)
qed

lemma digits_value_decimal:
  "list_all is_digit ds \<Longrightarrow> int (digits_value 10 ds) = decimal_value ds"
proof (induction ds rule: rev_induct)
  case Nil
  show ?case by (simp add: digits_value_def decimal_value_def)
next
  case (snoc c z)
  then have c: "is_digit c" and z: "list_all is_digit z" by simp_all
  from digit_unat [OF c] have "int (unat c - 48) = int (unat c) - 48" by simp
  with snoc.IH [OF z] c show ?case
    by (simp add: digits_value_snoc decimal_value_snoc)
qed

lemma parseInt_digits:
  assumes "ds \<noteq> []" and "list_all is_digit ds"
  shows "parseInt ds = to_double (of_int (decimal_value ds))"
proof -
  from assms obtain c t where ds: "ds = c # t" and c: "is_digit c" and t: "list_all is_digit t"
    by (cases ds) auto
  from c have c': "\<not> is_white_space c" "c \<noteq> 0x2B" "c \<noteq> 0x2D" "radix_digit 10 c"
    using digit_not_white_space digit_not_sign digit_radix_10 by blast+
  from t have t': "\<forall>x\<in>set t. radix_digit 10 x"
    by (simp add: list_all_iff digit_radix_10)
  have "parseInt (c # t) = to_double (of_int (int (digits_value 10 (c # t))))"
  proof (cases t)
    case Nil
    with c' show ?thesis by (simp add: parseInt_def Let_def)
  next
    case (Cons b u)
    with t have "is_digit b" by simp
    then have "b \<noteq> 0x78" "b \<noteq> 0x58" "radix_digit 10 b"
      using digit_not_x digit_radix_10 by blast+
    moreover from t' Cons have "takeWhile (radix_digit 10) u = u" by simp
    ultimately show ?thesis using c' Cons
      by (simp add: parseInt_def Let_def del: takeWhile_eq_all_conv)
  qed
  with ds have "parseInt ds = to_double (of_int (int (digits_value 10 ds)))" by simp
  with digits_value_decimal [OF assms(2)] show ?thesis by simp
qed

lemma decimal_value_nonneg:
  "list_all is_digit ds \<Longrightarrow> 0 \<le> decimal_value ds"
  using digits_value_decimal [of ds] by (metis of_nat_0_le_iff)

lemma extractTemplateIds_runs:
  "extractTemplateIds s
   = map (\<lambda>ds. to_double (of_int (decimal_value ds))) (hash_digit_runs (content s))"
  by (simp add: extractTemplateIds_def matchAll_hash_digits comp_def
      hash_digit_runs_digits parseInt_digits)

subsection \<open>Rounding to a double\<close>

text \<open>An integer up to \<open>2^53\<close> is its own double; the two integers after \<open>2^53\<close> that lie
  half way between doubles go to the even neighbour.\<close>

lemma bitlen_bounds:
  "0 < n \<Longrightarrow> 2 ^ (bitlen n - 1) \<le> n \<and> n < 2 ^ bitlen n"
proof (induction n rule: bitlen.induct)
  case (1 n)
  show ?case
  proof (cases "n div 2 = 0")
    case True
    with "1.prems" have "n = 1" by (simp add: div_eq_0_iff)
    then show ?thesis by (simp add: bitlen.simps)
  next
    case False
    then have pos: "0 < n div 2" by simp
    from "1.prems" have n0: "n \<noteq> 0" by simp
    from "1.IH" [OF n0 pos] have lo: "2 ^ (bitlen (n div 2) - 1) \<le> n div 2"
      and hi: "n div 2 < 2 ^ bitlen (n div 2)" by simp_all
    from pos have b: "0 < bitlen (n div 2)" by (simp add: bitlen.simps [of "n div 2"])
    have len: "bitlen n = Suc (bitlen (n div 2))" using n0 by (simp add: bitlen.simps [of n])
    from b have "(2::nat) ^ (bitlen n - 1) = 2 * 2 ^ (bitlen (n div 2) - 1)"
      by (cases "bitlen (n div 2)") (simp_all add: len)
    with lo have "2 ^ (bitlen n - 1) \<le> 2 * (n div 2)" by simp
    then have "2 ^ (bitlen n - 1) \<le> n" by linarith
    moreover from hi have "n < 2 ^ bitlen n" by (simp add: len)
    ultimately show ?thesis by simp
  qed
qed

lemma floor_log2_of_nat:
  assumes "0 < n"
  shows "floor_log2 (of_nat n) = int (bitlen n) - 1"
proof -
  have q: "quotient_of (of_nat n) = (int n, 1)"
    using quotient_of_int [of "int n"] by (simp add: Rat.of_int_def)
  have b1: "bitlen (Suc 0) = 1" by (simp add: bitlen.simps)
  from assms have b: "0 < bitlen n" by (simp add: bitlen.simps [of n])
  from bitlen_bounds [OF assms] have "(2::nat) ^ (bitlen n - 1) \<le> n" by simp
  then have "(of_nat (2 ^ (bitlen n - 1)) :: rat) \<le> of_nat n" by (simp only: of_nat_le_iff)
  then have "pow2 (int (bitlen n) - 1) \<le> of_nat n"
    using b by (simp add: pow2_def nat_diff_distrib)
  then show ?thesis
    by (simp add: floor_log2_def q b1)
qed

lemma round_half_even_of_int: "round_half_even (of_int m) = m"
  by (simp add: round_half_even_def)

lemma to_double_small_nat:
  assumes "n < 2 ^ 53"
  shows "to_double (of_nat n) = Num (of_nat n)"
proof (cases "n = 0")
  case True
  then show ?thesis by (simp add: to_double_def)
next
  case False
  then have pos: "0 < n" by simp
  let ?b = "bitlen n"
  from bitlen_bounds [OF pos] assms have "(2::nat) ^ (?b - 1) < 2 ^ 53" by linarith
  then have b53: "?b - 1 < 53"
    by (rule power_less_imp_less_exp [where a = "2::nat", rotated]) simp
  from pos have b0: "0 < ?b" by (simp add: bitlen.simps [of n])
  let ?k = "53 - ?b"
  have e: "max (floor_log2 (of_nat n) - 52) (- 1074) = - int ?k"
    using b53 b0 by (simp add: floor_log2_of_nat [OF pos])
  have p: "pow2 (- int ?k) = 1 / 2 ^ ?k"
    by (cases "?k = 0") (simp_all add: pow2_def)
  have scaled: "(of_nat n :: rat) / pow2 (- int ?k) = of_int (int n * 2 ^ ?k)"
    by (simp add: p)
  have r: "of_int (round_half_even ((of_nat n :: rat) / pow2 (- int ?k))) * pow2 (- int ?k)
           = (of_nat n :: rat)"
    by (simp only: scaled round_half_even_of_int) (simp add: p)
  have "(of_nat n :: rat) < 2 ^ 53"
    using assms by (metis of_nat_less_iff of_nat_numeral of_nat_power)
  also have "\<dots> \<le> 2 ^ 1024" by (rule power_increasing) simp_all
  finally have small: "\<not> pow2 1024 \<le> (of_nat n :: rat)" by (simp add: pow2_def)
  from pos have nz: "(of_nat n :: rat) \<noteq> 0" "\<not> (of_nat n :: rat) < 0" by simp_all
  show ?thesis
    unfolding to_double_def Let_def
    using nz small by (simp add: e r)
qed

lemma floor_divide_numeral_rat:
  "\<lfloor>numeral a / numeral b :: rat\<rfloor> = numeral a div numeral b"
  by (metis floor_divide_of_int_eq of_int_numeral)

lemma to_double_2_53: "to_double 9007199254740992 = Num 9007199254740992"
  by (simp add: to_double_def floor_log2_def bitlen.simps pow2_def round_half_even_def Let_def
      floor_divide_numeral_rat)

lemma to_double_tie_down: "to_double 9007199254740993 = Num 9007199254740992"
  by (simp add: to_double_def floor_log2_def bitlen.simps pow2_def round_half_even_def Let_def
      floor_divide_numeral_rat)

lemma to_double_tie_up: "to_double 9007199254740995 = Num 9007199254740996"
  by (simp add: to_double_def floor_log2_def bitlen.simps pow2_def round_half_even_def Let_def
      floor_divide_numeral_rat)

lemma to_double_safe_nat:
  assumes "n \<le> 2 ^ 53"
  shows "to_double (of_nat n) = Num (of_nat n)"
proof (cases "n < 2 ^ 53")
  case True
  then show ?thesis by (rule to_double_small_nat)
next
  case False
  with assms have "n = 9007199254740992" by simp
  then show ?thesis by (simp add: to_double_2_53)
qed

lemma to_double_safe_int:
  assumes "0 \<le> n" and "n \<le> 2 ^ 53"
  shows "to_double (of_int n) = Num (of_int n)"
proof -
  from assms have "nat n \<le> 2 ^ 53" by (simp add: nat_le_iff)
  from to_double_safe_nat [OF this] assms(1) show ?thesis by simp
qed

subsection \<open>The text of a number\<close>

text \<open>The decimal digits of a natural number are digits, denote it, and start with a zero
  for zero only; the text of an integer up to \<open>2^53\<close> in magnitude is made of them. No text of
  a number has a \<^verbatim>\<open>$\<close>, so that \<open>replace_first\<close> may insert it as it is.\<close>

lemma digit_char_unat: "d < 10 \<Longrightarrow> unat (of_nat (48 + d) :: jschar) = 48 + d"
  by (simp only: unat_of_nat) simp

lemma digit_char_is_digit: "d < 10 \<Longrightarrow> is_digit (of_nat (48 + d))"
  using digit_char_unat [of d] by (simp add: is_digit_def word_le_nat_alt)

lemma nat_digits_digits: "list_all is_digit (nat_digits n)"
proof (induction n rule: nat_digits.induct)
  case (1 n)
  show ?case
  proof (cases "n < 10")
    case True
    then show ?thesis
      using digit_char_is_digit [of n] by (simp add: nat_digits.simps [of n])
  next
    case False
    have "n mod 10 < 10" by simp
    then have "is_digit (of_nat (48 + n mod 10))" by (rule digit_char_is_digit)
    with False "1.IH" show ?thesis by (simp add: nat_digits.simps [of n])
  qed
qed

lemma nat_digits_nonempty: "nat_digits n \<noteq> []"
  by (simp add: nat_digits.simps [of n])

lemma nat_digits_value: "decimal_value (nat_digits n) = int n"
proof (induction n rule: nat_digits.induct)
  case (1 n)
  show ?case
  proof (cases "n < 10")
    case True
    then show ?thesis
      using decimal_value_snoc [of "[]" "of_nat (48 + n)"] digit_char_unat [of n]
      by (simp add: nat_digits.simps [of n] decimal_value_def)
  next
    case False
    have "n mod 10 < 10" by simp
    moreover have "10 * int (n div 10) + int (n mod 10) = int n"
      by (simp add: zdiv_int zmod_int)
    ultimately show ?thesis
      using digit_char_unat [of "n mod 10"] False "1.IH"
      by (simp add: nat_digits.simps [of n] decimal_value_snoc)
  qed
qed

lemma nat_digits_canonical: "hd (nat_digits n) = 0x30 \<Longrightarrow> nat_digits n = [0x30]"
proof (induction n rule: nat_digits.induct)
  case (1 n)
  show ?case
  proof (cases "n < 10")
    case True
    with "1.prems" show ?thesis by (simp add: nat_digits.simps [of n])
  next
    case False
    with "1.prems" have "hd (nat_digits (n div 10)) = 0x30"
      by (simp add: nat_digits.simps [of n] nat_digits_nonempty)
    from "1.IH" [OF False this] have "decimal_value (nat_digits (n div 10)) = decimal_value [0x30]"
      by simp
    moreover have "decimal_value [0x30] = 0"
      by (simp add: decimal_value_def)
    ultimately have "int (n div 10) = 0"
      by (simp only: nat_digits_value)
    with False show ?thesis by simp
  qed
qed

lemma number_toString_safe_int:
  assumes "\<bar>n\<bar> \<le> 2 ^ 53"
  shows "number_toString (Num (of_int n))
         = (if n < 0 then [0x2D] else []) @ nat_digits (nat \<bar>n\<bar>)"
proof -
  have zero: "nat_digits 0 = [0x30]" by (simp add: nat_digits.simps)
  have pos: "positive_toString (of_int m) = nat_digits (nat m)" if "0 < m" "m \<le> 2 ^ 53" for m
  proof -
    from that have "(of_int m :: rat) \<le> of_int (2 ^ 53)" by (simp only: of_int_le_iff)
    then show ?thesis by (simp add: positive_toString_def)
  qed
  show ?thesis
  proof (cases "n = 0")
    case True
    then show ?thesis by (simp add: zero)
  next
    case False
    show ?thesis
    proof (cases "n < 0")
      case True
      with assms pos [of "- n"] show ?thesis by simp
    next
      case False
      with \<open>n \<noteq> 0\<close> assms pos [of n] show ?thesis by simp
    qed
  qed
qed

lemma nat_digits_no_dollar: "0x24 \<notin> set (nat_digits n)"
proof
  assume "0x24 \<in> set (nat_digits n)"
  with nat_digits_digits [of n] have "is_digit 0x24" by (simp add: list_all_iff)
  then show False by (simp add: is_digit_def)
qed

lemma render_digits_no_dollar: "0x24 \<notin> set (render_digits snk)"
proof -
  obtain s k n where snk: "snk = (s, k, n)" by (cases snk)
  have t: "0x24 \<notin> set (take m (nat_digits j))" for m j
    using nat_digits_no_dollar [of j] by (meson in_set_takeD)
  have d: "0x24 \<notin> set (drop m (nat_digits j))" for m j
    using nat_digits_no_dollar [of j] by (meson in_set_dropD)
  show ?thesis
    unfolding snk render_digits_def Let_def
    using t d by (simp add: nat_digits_no_dollar)
qed

lemma number_toString_no_dollar: "0x24 \<notin> set (number_toString x)"
proof (cases x)
  case (Num r)
  have "0x24 \<notin> set (positive_toString q)" for q
    by (simp add: positive_toString_def nat_digits_no_dollar render_digits_no_dollar)
  with Num show ?thesis by simp
qed (simp_all add: js_def)

text \<open>From \<open>10^21\<close> on the text is in exponent notation.\<close>

lemma to_double_1e21: "to_double 1000000000000000000000 = Num 1000000000000000000000"
  by (simp add: to_double_def floor_log2_def bitlen.simps pow2_def round_half_even_def Let_def
      floor_divide_numeral_rat)

lemma to_double_2e21: "to_double 2000000000000000000000 = Num 2000000000000000000000"
  by (simp add: to_double_def floor_log2_def bitlen.simps pow2_def round_half_even_def Let_def
      floor_divide_numeral_rat)

lemma pow10_21: "pow10 (22 - int 1) = 1000000000000000000000"
  by (simp add: pow10_def)

lemma candidates_1e21: "candidates 1000000000000000000000 22 1 = [1]"
  unfolding candidates_def pow10_21 Let_def
  by (simp add: to_double_1e21 to_double_2e21)

lemma floor_log10_1e21: "floor_log10 1000000000000000000000 = 21"
  by (simp add: floor_log10_def declen.simps pow10_def)

lemma upt_1_18: "[1 ..< 18] = [1, 2, 3, 4, 5, 6, 7, 8, 9, 10, 11, 12, 13, 14, 15, 16, 17 :: nat]"
  by (simp add: upt_conv_Cons)

lemma shortest_digits_one:
  assumes "floor_log10 x = n" and "m = n + 1" and "candidates x m 1 = [c]" and "c \<noteq> 10"
  shows "shortest_digits x = (c, 1, m)"
  using assms unfolding shortest_digits_def Let_def upt_1_18 by simp

lemma shortest_digits_1e21: "shortest_digits 1000000000000000000000 = (1, 1, 22)"
  by (rule shortest_digits_one [OF floor_log10_1e21 _ candidates_1e21]) simp_all

lemma render_1_1_22: "render_digits (1, 1, 22) = js ''1e+21''"
proof -
  have "nat_digits 1 = js ''1''" "nat_digits 21 = js ''21''"
    by (simp_all add: nat_digits.simps js_def)
  then show ?thesis
    by (simp add: render_digits_def) (simp add: js_def)
qed

lemma positive_1e21: "positive_toString 1000000000000000000000 = js ''1e+21''"
proof -
  have "\<not> (1000000000000000000000 :: rat) \<le> 2 ^ 53" by simp
  then have "positive_toString 1000000000000000000000
             = render_digits (shortest_digits 1000000000000000000000)"
    unfolding positive_toString_def by (simp only: simp_thms if_False)
  then show ?thesis by (simp only: shortest_digits_1e21 render_1_1_22)
qed

lemma number_toString_1e21: "number_toString (Num 1000000000000000000000) = js ''1e+21''"
  using positive_1e21 by simp

section \<open>Properties of the handlers\<close>

subsection \<open>Loading the post\<close>

text \<open>
  Claim C6. When the page loads with an identifier but \<^verbatim>\<open>localStorage\<close> holds no access
  token, \<^verbatim>\<open>fetchBlogPost\<close> sets the error "You need to be logged in to edit posts" and
  stops: it issues no effect, so the read endpoint is never called, and it writes none of
  the four fields, which on page entry are the empty texts of the initial state. Only
  \<^verbatim>\<open>initialLoading\<close> is cleared beside, by the \<^verbatim>\<open>finally\<close> block.
\<close>

theorem fetchBlogPost_no_token:
  assumes "query_id e = Some i" and "i \<noteq> []" and "accessToken e = None"
  shows "fetchBlogPost e outcome s =
           (s\<lparr>error := Some (js ''You need to be logged in to edit posts''),
              initialLoading := False\<rparr>, [])
         \<and> title (fst (fetchBlogPost e outcome initial_state)) = []
         \<and> description (fst (fetchBlogPost e outcome initial_state)) = []
         \<and> content (fst (fetchBlogPost e outcome initial_state)) = []
         \<and> tag (fst (fetchBlogPost e outcome initial_state)) = []"
  using assms by (simp add: fetchBlogPost_def fetchBlogPost_try_def initial_state_def)

theorem fetchBlogPost_no_token_witness:
  "query_id \<lparr>accessToken = None, query_id = Some (js ''7'')\<rparr> = Some (js ''7'') \<and>
   js ''7'' \<noteq> [] \<and>
   accessToken \<lparr>accessToken = None, query_id = Some (js ''7'')\<rparr> = None \<and>
   fetchBlogPost \<lparr>accessToken = None, query_id = Some (js ''7'')\<rparr> (Rejected None) initial_state
     = (initial_state\<lparr>error := Some (js ''You need to be logged in to edit posts''),
          initialLoading := False\<rparr>, [])"
  using fetchBlogPost_no_token
    [of "\<lparr>accessToken = None, query_id = Some (js ''7'')\<rparr>" "js ''7''" "Rejected None" initial_state]
  by (simp add: js_def)

text \<open>
  Claim C8. When the page loads with an identifier and a stored token, and the read request
  is fulfilled with a payload that has a \<^verbatim>\<open>blogPost\<close>, the loader sets title, description,
  content and tag to the fields of that post, whatever they held before; the one request it
  sent is the authenticated GET of the post.
\<close>

theorem fetchBlogPost_populates:
  assumes "query_id e = Some i" and "i \<noteq> []" and "accessToken e = Some tok" and "tok \<noteq> []"
  shows "fetchBlogPost e (Fulfilled (Some post)) s =
           (s\<lparr>title := p_title post, description := p_description post,
              content := p_content post, tag := p_tag post, initialLoading := False\<rparr>,
            [AxiosGet (js ''/api/blogposts/'' @ i) None (Some (js ''Bearer '' @ tok))])"
  using assms by (simp add: fetchBlogPost_def fetchBlogPost_try_def)

theorem fetchBlogPost_populates_witness:
  "query_id \<lparr>accessToken = Some (js ''tok''), query_id = Some (js ''7'')\<rparr> = Some (js ''7'') \<and>
   js ''7'' \<noteq> [] \<and>
   accessToken \<lparr>accessToken = Some (js ''tok''), query_id = Some (js ''7'')\<rparr> = Some (js ''tok'') \<and>
   js ''tok'' \<noteq> [] \<and>
   fetchBlogPost \<lparr>accessToken = Some (js ''tok''), query_id = Some (js ''7'')\<rparr>
       (Fulfilled (Some \<lparr>p_id = Num 7, p_title = js ''T'', p_description = js ''D'',
                          p_content = js ''see #1'', p_tag = js ''x'', p_templates = []\<rparr>))
       initial_state
     = (initial_state\<lparr>title := js ''T'', description := js ''D'', content := js ''see #1'',
          tag := js ''x'', initialLoading := False\<rparr>,
        [AxiosGet (js ''/api/blogposts/7'') None (Some (js ''Bearer tok''))])"
  using fetchBlogPost_populates
    [of "\<lparr>accessToken = Some (js ''tok''), query_id = Some (js ''7'')\<rparr>" "js ''7''" "js ''tok''"
        "\<lparr>p_id = Num 7, p_title = js ''T'', p_description = js ''D'',
          p_content = js ''see #1'', p_tag = js ''x'', p_templates = []\<rparr>" initial_state]
  by (simp add: js_def)

subsection \<open>The template popup\<close>

text \<open>
  Claim C1, as amended. \<^verbatim>\<open>handleContentChange\<close> always stores the new content and the
  caret offset, and then one of three things happens. If the text before the caret ends
  in \<^verbatim>\<open>#\<close> followed by a non-empty token \<open>t\<close> of word characters, it sends the template
  search for \<open>t\<close> and shows the popup; and the search for \<open>t\<close> is sent exactly in that
  case. If the text before the caret ends in a bare \<^verbatim>\<open>#\<close>, it sends nothing and leaves the
  visibility of the popup as it was. If the text before the caret does not end in \<^verbatim>\<open>#\<close>
  followed by word characters, it sends nothing and hides the popup.
\<close>

theorem handleContentChange_trigger:
  "(t \<noteq> [] \<and> ends_in_hash_token (take pos c) t \<longrightarrow>
      handleContentChange c pos s =
        (s\<lparr>content := c, cursorPosition := pos, showTemplatePopup := True\<rparr>,
         [handleTemplateSearch_request t]))
   \<and> (ends_in_hash_token (take pos c) [] \<longrightarrow>
      handleContentChange c pos s = (s\<lparr>content := c, cursorPosition := pos\<rparr>, []))
   \<and> ((\<forall>u. \<not> ends_in_hash_token (take pos c) u) \<longrightarrow>
      handleContentChange c pos s =
        (s\<lparr>content := c, cursorPosition := pos, showTemplatePopup := False\<rparr>, []))
   \<and> (snd (handleContentChange c pos s) = [handleTemplateSearch_request t]
        \<longleftrightarrow> t \<noteq> [] \<and> ends_in_hash_token (take pos c) t)"
proof -
  have found: "handleContentChange c pos s =
        (s\<lparr>content := c, cursorPosition := pos, showTemplatePopup := True\<rparr>,
         [handleTemplateSearch_request u])"
    if "u \<noteq> []" and "ends_in_hash_token (take pos c) u" for u
    using that by (simp add: handleContentChange_def slice_to_def match_first_token)
  have bare: "handleContentChange c pos s = (s\<lparr>content := c, cursorPosition := pos\<rparr>, [])"
    if "ends_in_hash_token (take pos c) []"
    using that by (simp add: handleContentChange_def slice_to_def match_first_token)
  have none: "handleContentChange c pos s =
        (s\<lparr>content := c, cursorPosition := pos, showTemplatePopup := False\<rparr>, [])"
    if "\<forall>u. \<not> ends_in_hash_token (take pos c) u"
    using that by (simp add: handleContentChange_def slice_to_def match_first_none)
  have iff: "snd (handleContentChange c pos s) = [handleTemplateSearch_request t]
        \<longleftrightarrow> t \<noteq> [] \<and> ends_in_hash_token (take pos c) t"
  proof (cases "\<exists>u. ends_in_hash_token (take pos c) u")
    case False
    with none show ?thesis by simp
  next
    case True
    then obtain u where u: "ends_in_hash_token (take pos c) u" by blast
    show ?thesis
    proof (cases "u = []")
      case True
      with u bare have "snd (handleContentChange c pos s) = []" by simp
      moreover from True u have "ends_in_hash_token (take pos c) t \<Longrightarrow> t = []"
        using ends_in_hash_token_unique by blast
      ultimately show ?thesis by auto
    next
      case False
      with u found have "snd (handleContentChange c pos s) = [handleTemplateSearch_request u]"
        by simp
      moreover have "ends_in_hash_token (take pos c) t \<Longrightarrow> t = u"
        using u ends_in_hash_token_unique by blast
      ultimately show ?thesis using False u
        by (auto simp: handleTemplateSearch_request_def)
    qed
  qed
  from found bare none iff show ?thesis by blast
qed

theorem handleContentChange_trigger_witness:
  "(js ''fo'' \<noteq> [] \<and> ends_in_hash_token (take 9 (js ''hello #fo'')) (js ''fo'')) \<and>
   handleContentChange (js ''hello #fo'') 9 initial_state =
     (initial_state\<lparr>content := js ''hello #fo'', cursorPosition := 9, showTemplatePopup := True\<rparr>,
      [handleTemplateSearch_request (js ''fo'')]) \<and>
   ends_in_hash_token (take 1 (js ''#'')) [] \<and>
   handleContentChange (js ''#'') 1 initial_state =
     (initial_state\<lparr>content := js ''#'', cursorPosition := 1\<rparr>, []) \<and>
   (\<forall>u. \<not> ends_in_hash_token (take 8 (js ''hello # '')) u) \<and>
   handleContentChange (js ''hello # '') 8 initial_state =
     (initial_state\<lparr>content := js ''hello # '', cursorPosition := 8, showTemplatePopup := False\<rparr>,
      [])"
proof -
  have h1: "js ''fo'' \<noteq> [] \<and> ends_in_hash_token (take 9 (js ''hello #fo'')) (js ''fo'')"
    by (simp add: ends_in_hash_tokenI [of _ "js ''hello ''"] js_def hash_def is_word_char_def
        is_digit_def)
  have h2: "ends_in_hash_token (take 1 (js ''#'')) []"
    by (simp add: ends_in_hash_tokenI [of _ "[]"] js_def hash_def)
  have h3: "\<forall>u. \<not> ends_in_hash_token (take 8 (js ''hello # '')) u"
  proof (intro allI notI)
    fix u assume "ends_in_hash_token (take 8 (js ''hello # '')) u"
    from ends_in_hash_token_last [OF this] show False
      by (simp add: js_def hash_def is_word_char_def is_digit_def)
  qed
  from h1 h2 h3
    handleContentChange_trigger [of "js ''fo''" 9 "js ''hello #fo''" initial_state]
    handleContentChange_trigger [of "[]" 1 "js ''#''" initial_state]
    handleContentChange_trigger [of "[]" 8 "js ''hello # ''" initial_state]
  show ?thesis by blast
qed

text \<open>
  The claim C1 as it was stated has the popup hidden for a bare \<^verbatim>\<open>#\<close>. Typing \<^verbatim>\<open>#f\<close> and
  deleting the \<^verbatim>\<open>f\<close> leaves the text before the caret a bare \<^verbatim>\<open>#\<close>, and the popup is
  still shown.
\<close>

theorem handleContentChange_bare_hash_counterexample:
  "ends_in_hash_token (take 1 (js ''#'')) [] \<and>
   showTemplatePopup
     (fst (handleContentChange (js ''#'') 1
        (fst (handleContentChange (js ''#f'') 2 initial_state)))) = True"
proof -
  have "ends_in_hash_token (take 1 (js ''#'')) []"
    by (simp add: ends_in_hash_tokenI [of _ "[]"] js_def hash_def)
  moreover have "showTemplatePopup
     (fst (handleContentChange (js ''#'') 1
        (fst (handleContentChange (js ''#f'') 2 initial_state)))) = True"
    by code_simp
  ultimately show ?thesis by simp
qed

text \<open>
  Claim C4. When the text before the caret ends in \<^verbatim>\<open>#\<close> followed by word characters,
  \<^verbatim>\<open>handleTemplateSelect\<close> replaces that trailing span by \<^verbatim>\<open>#\<close> and the text of the
  template's id, keeps what stands before the span and what stands from the caret on, and
  closes the popup. For an id that is an integer \<open>n\<close> of magnitude up to \<open>2^53\<close> the text of
  the id is the decimal numeral of \<open>n\<close>: a minus sign when \<open>n\<close> is negative, then digits that
  denote \<open>\<bar>n\<bar>\<close> and do not start with a zero unless they are the single digit 0. (With no
  such span there is nothing to replace, and the content stays as it is.) In every case the
  popup is closed and the old text from the caret on is the end of the new content.
  Selecting the template 42 after \<^verbatim>\<open>hello #fo\<close>, with \<^verbatim>\<open> world\<close> behind the caret, gives
  \<^verbatim>\<open>hello #42 world\<close>.
\<close>

theorem handleTemplateSelect_replaces:
  "(take (cursorPosition s) (content s) = pre @ hash # tok \<and> list_all is_word_char tok \<longrightarrow>
      handleTemplateSelect t s =
        s\<lparr>content := pre @ hash # number_toString (t_id t) @ drop (cursorPosition s) (content s),
          showTemplatePopup := False\<rparr>)
   \<and> (t_id t = Num (of_int n) \<and> \<bar>n\<bar> \<le> 2 ^ 53 \<and>
       take (cursorPosition s) (content s) = pre @ hash # tok \<and> list_all is_word_char tok \<longrightarrow>
      (\<exists>ds. content (handleTemplateSelect t s) =
              pre @ hash # (if n < 0 then [0x2D] else []) @ ds
                @ drop (cursorPosition s) (content s)
            \<and> ds \<noteq> [] \<and> list_all is_digit ds \<and> decimal_value ds = \<bar>n\<bar>
            \<and> (hd ds = 0x30 \<longrightarrow> ds = [0x30])))
   \<and> ((\<forall>u. \<not> ends_in_hash_token (take (cursorPosition s) (content s)) u) \<longrightarrow>
      handleTemplateSelect t s = s\<lparr>showTemplatePopup := False\<rparr>)
   \<and> showTemplatePopup (handleTemplateSelect t s) = False
   \<and> suffix (drop (cursorPosition s) (content s)) (content (handleTemplateSelect t s))"
proof -
  have replaced: "handleTemplateSelect t s =
        s\<lparr>content := pre @ hash # number_toString (t_id t) @ drop (cursorPosition s) (content s),
          showTemplatePopup := False\<rparr>"
    if "take (cursorPosition s) (content s) = pre @ hash # tok" and "list_all is_word_char tok"
    using that
    by (simp add: handleTemplateSelect_def replace_first_def slice_to_def slice_from_def
        search_hash_word_end_found)
  have digits: "\<exists>ds. content (handleTemplateSelect t s) =
              pre @ hash # (if n < 0 then [0x2D] else []) @ ds
                @ drop (cursorPosition s) (content s)
            \<and> ds \<noteq> [] \<and> list_all is_digit ds \<and> decimal_value ds = \<bar>n\<bar>
            \<and> (hd ds = 0x30 \<longrightarrow> ds = [0x30])"
    if id: "t_id t = Num (of_int n)" and safe: "\<bar>n\<bar> \<le> 2 ^ 53"
      and span: "take (cursorPosition s) (content s) = pre @ hash # tok"
      and word: "list_all is_word_char tok"
  proof (intro exI conjI)
    from replaced [OF span word] id number_toString_safe_int [OF safe]
    show "content (handleTemplateSelect t s) =
              pre @ hash # (if n < 0 then [0x2D] else []) @ nat_digits (nat \<bar>n\<bar>)
                @ drop (cursorPosition s) (content s)"
      by simp
    show "nat_digits (nat \<bar>n\<bar>) \<noteq> []" by (rule nat_digits_nonempty)
    show "list_all is_digit (nat_digits (nat \<bar>n\<bar>))" by (rule nat_digits_digits)
    show "decimal_value (nat_digits (nat \<bar>n\<bar>)) = \<bar>n\<bar>" by (simp add: nat_digits_value)
    show "hd (nat_digits (nat \<bar>n\<bar>)) = 0x30 \<longrightarrow> nat_digits (nat \<bar>n\<bar>) = [0x30]"
      using nat_digits_canonical by blast
  qed
  have "handleTemplateSelect t s = s\<lparr>showTemplatePopup := False\<rparr>"
    if "\<forall>u. \<not> ends_in_hash_token (take (cursorPosition s) (content s)) u"
    using that
    by (simp add: handleTemplateSelect_def replace_first_def slice_to_def slice_from_def
        search_hash_word_end_none)
  moreover have "showTemplatePopup (handleTemplateSelect t s) = False"
    by (simp add: handleTemplateSelect_def Let_def)
  moreover have "suffix (drop (cursorPosition s) (content s)) (content (handleTemplateSelect t s))"
    by (simp add: handleTemplateSelect_def Let_def slice_from_def suffix_def)
  ultimately show ?thesis using replaced digits by blast
qed

theorem handleTemplateSelect_replaces_witness:
  "t_id \<lparr>t_id = Num 42, t_title = js ''fox''\<rparr> = Num (of_int 42) \<and>
   \<bar>42 :: int\<bar> \<le> 2 ^ 53 \<and>
   take (cursorPosition (initial_state\<lparr>content := js ''hello #fo world'', cursorPosition := 9\<rparr>))
     (content (initial_state\<lparr>content := js ''hello #fo world'', cursorPosition := 9\<rparr>))
     = js ''hello '' @ hash # js ''fo'' \<and>
   list_all is_word_char (js ''fo'') \<and>
   handleTemplateSelect \<lparr>t_id = Num 42, t_title = js ''fox''\<rparr>
       (initial_state\<lparr>content := js ''hello #fo world'', cursorPosition := 9\<rparr>)
     = initial_state\<lparr>content := js ''hello #42 world'', cursorPosition := 9,
         showTemplatePopup := False\<rparr>"
proof -
  let ?s = "initial_state\<lparr>content := js ''hello #fo world'', cursorPosition := 9\<rparr>"
  let ?t = "\<lparr>t_id = Num 42, t_title = js ''fox''\<rparr>"
  have h: "take (cursorPosition ?s) (content ?s) = js ''hello '' @ hash # js ''fo''
           \<and> list_all is_word_char (js ''fo'')"
    by (simp add: js_def hash_def is_word_char_def is_digit_def)
  have i: "t_id ?t = Num (of_int 42) \<and> \<bar>42 :: int\<bar> \<le> 2 ^ 53"
    by simp
  have shown: "number_toString (Num 42) = js ''42''"
    using number_toString_safe_int [of 42] by (simp add: js_def nat_digits.simps)
  from h i handleTemplateSelect_replaces [of ?s "js ''hello ''" "js ''fo''" ?t 42]
  have "handleTemplateSelect ?t ?s =
        ?s\<lparr>content := js ''hello '' @ hash # number_toString (Num 42) @ drop 9 (js ''hello #fo world''),
          showTemplatePopup := False\<rparr>"
    by (simp del: number_toString.simps)
  then have "handleTemplateSelect ?t ?s =
        ?s\<lparr>content := js ''hello #42 world'', showTemplatePopup := False\<rparr>"
    by (simp only: shown) (simp add: js_def hash_def)
  with h i show ?thesis by simp
qed

text \<open>
  Claim C9. \<^verbatim>\<open>handleTemplateSelect\<close> writes only \<^verbatim>\<open>content\<close> and \<^verbatim>\<open>showTemplatePopup\<close>:
  title, description, tag, error, success, loading, matchingTemplates and cursorPosition
  (and initialLoading) are the same after a selection as before it.
\<close>

theorem handleTemplateSelect_frame:
  "title (handleTemplateSelect t s) = title s \<and>
   description (handleTemplateSelect t s) = description s \<and>
   tag (handleTemplateSelect t s) = tag s \<and>
   error (handleTemplateSelect t s) = error s \<and>
   success (handleTemplateSelect t s) = success s \<and>
   loading (handleTemplateSelect t s) = loading s \<and>
   matchingTemplates (handleTemplateSelect t s) = matchingTemplates s \<and>
   cursorPosition (handleTemplateSelect t s) = cursorPosition s \<and>
   initialLoading (handleTemplateSelect t s) = initialLoading s"
  by (simp add: handleTemplateSelect_def Let_def)

text \<open>
  Claim C7, as amended. When the template search request fails, \<^verbatim>\<open>handleTemplateSearch\<close>
  only logs the failure: the state is the same after as before, so the error message is
  not set and the list of matching templates is left as it was (empty when it was empty).
\<close>

theorem handleTemplateSearch_failure:
  "handleTemplateSearch searchText (Rejected err) s =
     (s, [handleTemplateSearch_request searchText, ConsoleError])
   \<and> error (fst (handleTemplateSearch searchText (Rejected err) s)) = error s
   \<and> matchingTemplates (fst (handleTemplateSearch searchText (Rejected err) s))
       = matchingTemplates s"
  by (simp add: handleTemplateSearch_def handleTemplateSearch_settled_def)

text \<open>
  The claim C7 as it was stated has the list of matching templates empty after a failed
  search. After one search that found a template, a second search that fails leaves that
  template in the list.
\<close>

theorem handleTemplateSearch_failure_counterexample:
  "matchingTemplates
     (fst (handleTemplateSearch (js ''fox'') (Rejected None)
        (fst (handleTemplateSearch (js ''fo'')
                (Fulfilled (Some [\<lparr>t_id = Num 1, t_title = js ''foo''\<rparr>])) initial_state))))
   = [\<lparr>t_id = Num 1, t_title = js ''foo''\<rparr>]"
  by (simp add: handleTemplateSearch_def handleTemplateSearch_settled_def)

subsection \<open>The template references of the content\<close>

text \<open>
  Claim C3, as amended. \<^verbatim>\<open>extractTemplateIds\<close> returns one number for each occurrence of
  \<^verbatim>\<open>#\<close> followed by one or more digits in the content, in the order of their positions;
  nothing is filtered, so a number that occurs twice is returned twice, and no number is
  \<^verbatim>\<open>NaN\<close>. The number is the double of the value that the digits denote: the value itself
  whenever it is at most \<open>2^53\<close>. For the content \<^verbatim>\<open>see #1 and #23 and #1\<close> it returns
  1, 23, 1.
\<close>

theorem extractTemplateIds_all_occurrences:
  "extractTemplateIds s
     = map (\<lambda>ds. to_double (of_int (decimal_value ds))) (hash_digit_runs (content s))
   \<and> ((\<forall>ds \<in> set (hash_digit_runs (content s)). decimal_value ds \<le> 2 ^ 53) \<longrightarrow>
        extractTemplateIds s
          = map (\<lambda>ds. Num (of_int (decimal_value ds))) (hash_digit_runs (content s)))
   \<and> extractTemplateIds (s\<lparr>content := js ''see #1 and #23 and #1''\<rparr>) = [Num 1, Num 23, Num 1]"
proof -
  have exact: "extractTemplateIds s
                 = map (\<lambda>ds. Num (of_int (decimal_value ds))) (hash_digit_runs (content s))"
    if small: "\<forall>ds \<in> set (hash_digit_runs (content s)). decimal_value ds \<le> 2 ^ 53" for s
  proof -
    have "to_double (of_int (decimal_value ds)) = Num (of_int (decimal_value ds))"
      if "ds \<in> set (hash_digit_runs (content s))" for ds
    proof -
      from hash_digit_runs_digits [OF that] have "0 \<le> decimal_value ds"
        by (simp add: decimal_value_nonneg)
      moreover from small that have "decimal_value ds \<le> 2 ^ 53" by blast
      ultimately show ?thesis by (rule to_double_safe_int)
    qed
    then show ?thesis by (simp add: extractTemplateIds_runs)
  qed
  have runs: "hash_digit_runs (js ''see #1 and #23 and #1'') = [js ''1'', js ''23'', js ''1'']"
    by (simp add: js_def hash_def is_digit_def)
  have vals: "decimal_value (js ''1'') = 1" "decimal_value (js ''23'') = 23"
    by (simp_all add: js_def decimal_value_def lessThan_Suc)
  have "extractTemplateIds (s\<lparr>content := js ''see #1 and #23 and #1''\<rparr>)
        = [Num 1, Num 23, Num 1]"
    using exact [of "s\<lparr>content := js ''see #1 and #23 and #1''\<rparr>"]
    by (simp add: runs vals)
  with extractTemplateIds_runs [of s] exact [of s] show ?thesis by blast
qed

theorem extractTemplateIds_all_occurrences_witness:
  "hash_digit_runs (content (initial_state\<lparr>content := js ''#7 #7 #12''\<rparr>))
     = [js ''7'', js ''7'', js ''12''] \<and>
   decimal_value (js ''7'') \<le> 2 ^ 53 \<and> decimal_value (js ''12'') \<le> 2 ^ 53 \<and>
   extractTemplateIds (initial_state\<lparr>content := js ''#7 #7 #12''\<rparr>) = [Num 7, Num 7, Num 12]"
proof -
  let ?s = "initial_state\<lparr>content := js ''#7 #7 #12''\<rparr>"
  have runs: "hash_digit_runs (js ''#7 #7 #12'') = [js ''7'', js ''7'', js ''12'']"
    by (simp add: js_def hash_def is_digit_def)
  have vals: "decimal_value (js ''7'') = 7" "decimal_value (js ''12'') = 12"
    by (simp_all add: js_def decimal_value_def lessThan_Suc)
  have small: "\<forall>ds \<in> set (hash_digit_runs (content ?s)). decimal_value ds \<le> 2 ^ 53"
    by (simp add: runs vals)
  with extractTemplateIds_all_occurrences [of ?s]
  have "extractTemplateIds ?s
        = map (\<lambda>ds. Num (of_int (decimal_value ds))) (hash_digit_runs (content ?s))"
    by blast
  then have "extractTemplateIds ?s = [Num 7, Num 7, Num 12]"
    by (simp add: runs vals)
  then show ?thesis by (simp add: runs vals)
qed

text \<open>
  The claim C3 as it was stated has the numeric value of every occurrence returned. The
  digits of \<^verbatim>\<open>#9007199254740993\<close> denote \<open>2^53 + 1\<close>, which is no double, and the number
  returned is \<open>2^53\<close>.
\<close>

theorem extractTemplateIds_rounding_counterexample:
  "hash_digit_runs (js ''#9007199254740993'') = [js ''9007199254740993''] \<and>
   decimal_value (js ''9007199254740993'') = 9007199254740993 \<and>
   extractTemplateIds (initial_state\<lparr>content := js ''#9007199254740993''\<rparr>)
     = [Num 9007199254740992]"
proof -
  have runs: "hash_digit_runs (js ''#9007199254740993'') = [js ''9007199254740993'']"
    by (simp add: js_def hash_def is_digit_def)
  have "list_all is_digit (js ''9007199254740993'')"
    by (simp add: js_def is_digit_def)
  from digits_value_decimal [OF this]
  have val: "decimal_value (js ''9007199254740993'') = 9007199254740993"
    by (simp add: js_def digits_value_def digit_val_def)
  have "extractTemplateIds (initial_state\<lparr>content := js ''#9007199254740993''\<rparr>)
        = [Num 9007199254740992]"
    by (simp add: extractTemplateIds_runs runs val to_double_tie_down)
  with runs val show ?thesis by simp
qed

subsection \<open>Submitting the form\<close>

text \<open>
  Claim C5. When at least one of the four fields title, description, content and tag is
  empty, \<^verbatim>\<open>handleUpdatePost\<close> sets the error message "All fields are required!" and
  returns: it issues no effect at all, so no network call, and no other cell of the state
  changes, whatever the token and whatever the server would have answered.
\<close>

theorem handleUpdatePost_empty_field:
  "title s = [] \<or> description s = [] \<or> content s = [] \<or> tag s = [] \<Longrightarrow>
   handleUpdatePost e outcome s = (s\<lparr>error := Some (js ''All fields are required!'')\<rparr>, [])"
  by (simp add: handleUpdatePost_def)

theorem handleUpdatePost_empty_field_witness:
  "tag (initial_state\<lparr>title := js ''T'', description := js ''D'', content := js ''see #1''\<rparr>) = [] \<and>
   handleUpdatePost \<lparr>accessToken = Some (js ''tok''), query_id = Some (js ''7'')\<rparr> (Fulfilled 200)
       (initial_state\<lparr>title := js ''T'', description := js ''D'', content := js ''see #1''\<rparr>)
     = (initial_state\<lparr>title := js ''T'', description := js ''D'', content := js ''see #1'',
          error := Some (js ''All fields are required!'')\<rparr>, [])"
  using handleUpdatePost_empty_field
    [of "initial_state\<lparr>title := js ''T'', description := js ''D'', content := js ''see #1''\<rparr>"
        "\<lparr>accessToken = Some (js ''tok''), query_id = Some (js ''7'')\<rparr>" "Fulfilled 200"]
  by (simp add: initial_state_def)

text \<open>
  Claim C10. When the four fields are non-empty and \<^verbatim>\<open>localStorage\<close> holds no access token,
  \<^verbatim>\<open>handleUpdatePost\<close> issues no effect, so no update request, and ends with the error
  "You need to log in to update the blog post.", no success message, and \<^verbatim>\<open>loading\<close>
  back to false.
\<close>

theorem handleUpdatePost_no_token:
  assumes "title s \<noteq> []" and "description s \<noteq> []" and "content s \<noteq> []" and "tag s \<noteq> []"
    and "accessToken e = None"
  shows "handleUpdatePost e outcome s =
           (s\<lparr>error := Some (js ''You need to log in to update the blog post.''),
              success := None, loading := False\<rparr>, [])"
  using assms by (simp add: handleUpdatePost_def handleUpdatePost_try_def)

theorem handleUpdatePost_no_token_witness:
  "title (initial_state\<lparr>title := js ''T'', description := js ''D'', content := js ''see #1'',
            tag := js ''x''\<rparr>) \<noteq> [] \<and>
   description (initial_state\<lparr>title := js ''T'', description := js ''D'', content := js ''see #1'',
            tag := js ''x''\<rparr>) \<noteq> [] \<and>
   content (initial_state\<lparr>title := js ''T'', description := js ''D'', content := js ''see #1'',
            tag := js ''x''\<rparr>) \<noteq> [] \<and>
   tag (initial_state\<lparr>title := js ''T'', description := js ''D'', content := js ''see #1'',
            tag := js ''x''\<rparr>) \<noteq> [] \<and>
   accessToken \<lparr>accessToken = None, query_id = Some (js ''7'')\<rparr> = None \<and>
   handleUpdatePost \<lparr>accessToken = None, query_id = Some (js ''7'')\<rparr> (Fulfilled 200)
       (initial_state\<lparr>title := js ''T'', description := js ''D'', content := js ''see #1'',
          tag := js ''x''\<rparr>)
     = (initial_state\<lparr>title := js ''T'', description := js ''D'', content := js ''see #1'',
          tag := js ''x'', error := Some (js ''You need to log in to update the blog post.'')\<rparr>,
        [])"
  using handleUpdatePost_no_token
    [of "initial_state\<lparr>title := js ''T'', description := js ''D'', content := js ''see #1'',
          tag := js ''x''\<rparr>"
        "\<lparr>accessToken = None, query_id = Some (js ''7'')\<rparr>" "Fulfilled 200"]
  by (simp add: initial_state_def js_def)

text \<open>
  Claim C2, as amended. With the four fields non-empty and a stored token,
  \<^verbatim>\<open>handleUpdatePost\<close> sends the update request, and what follows is a case split in three.
  If the request is fulfilled with status 200, the success message is set and the
  navigation to the post's page is scheduled after 2000 ms. If the request is rejected,
  the error is the server's error when there is one and it is not empty, and "Failed to
  update blog post." otherwise, and nothing navigates. If the request is fulfilled with
  another status, neither message is set and nothing navigates. In each case \<^verbatim>\<open>loading\<close>
  ends false.
\<close>

theorem handleUpdatePost_outcomes:
  assumes "title s \<noteq> []" and "description s \<noteq> []" and "content s \<noteq> []" and "tag s \<noteq> []"
    and "accessToken e = Some tok" and "tok \<noteq> []"
    and "request = AxiosPut (js ''/api/blogposts/'' @ id_text (query_id e))
                     \<lparr>b_title = title s, b_description = description s, b_content = content s,
                      b_tag = tag s, b_templateIds = extractTemplateIds s\<rparr>
                     (js ''Bearer '' @ tok)"
  shows "handleUpdatePost e (Fulfilled 200) s =
           (s\<lparr>error := None, success := Some (js ''Blog post updated successfully!''),
              loading := False\<rparr>,
            [request, SetTimeoutPush (js ''/blogposts/'' @ id_text (query_id e)) 2000])
         \<and> handleUpdatePost e (Rejected err) s =
           (s\<lparr>error := Some (case err of None \<Rightarrow> js ''Failed to update blog post.''
                               | Some m \<Rightarrow> if m = [] then js ''Failed to update blog post.'' else m),
              success := None, loading := False\<rparr>, [request])
         \<and> (status \<noteq> 200 \<longrightarrow>
              handleUpdatePost e (Fulfilled status) s =
                (s\<lparr>error := None, success := None, loading := False\<rparr>, [request]))"
  using assms by (cases err) (simp_all add: handleUpdatePost_def handleUpdatePost_try_def)

theorem handleUpdatePost_outcomes_witness:
  "handleUpdatePost \<lparr>accessToken = Some (js ''tok''), query_id = Some (js ''7'')\<rparr> (Fulfilled 200)
       (initial_state\<lparr>title := js ''T'', description := js ''D'', content := js ''see #1'',
          tag := js ''x''\<rparr>)
     = (initial_state\<lparr>title := js ''T'', description := js ''D'', content := js ''see #1'',
          tag := js ''x'', success := Some (js ''Blog post updated successfully!'')\<rparr>,
        [AxiosPut (js ''/api/blogposts/7'')
           \<lparr>b_title = js ''T'', b_description = js ''D'', b_content = js ''see #1'',
            b_tag = js ''x'', b_templateIds = [Num 1]\<rparr> (js ''Bearer tok''),
         SetTimeoutPush (js ''/blogposts/7'') 2000]) \<and>
   handleUpdatePost \<lparr>accessToken = Some (js ''tok''), query_id = Some (js ''7'')\<rparr>
       (Rejected (Some (js ''Forbidden'')))
       (initial_state\<lparr>title := js ''T'', description := js ''D'', content := js ''see #1'',
          tag := js ''x''\<rparr>)
     = (initial_state\<lparr>title := js ''T'', description := js ''D'', content := js ''see #1'',
          tag := js ''x'', error := Some (js ''Forbidden'')\<rparr>,
        [AxiosPut (js ''/api/blogposts/7'')
           \<lparr>b_title = js ''T'', b_description = js ''D'', b_content = js ''see #1'',
            b_tag = js ''x'', b_templateIds = [Num 1]\<rparr> (js ''Bearer tok'')]) \<and>
   handleUpdatePost \<lparr>accessToken = Some (js ''tok''), query_id = Some (js ''7'')\<rparr> (Fulfilled 204)
       (initial_state\<lparr>title := js ''T'', description := js ''D'', content := js ''see #1'',
          tag := js ''x''\<rparr>)
     = (initial_state\<lparr>title := js ''T'', description := js ''D'', content := js ''see #1'',
          tag := js ''x''\<rparr>,
        [AxiosPut (js ''/api/blogposts/7'')
           \<lparr>b_title = js ''T'', b_description = js ''D'', b_content = js ''see #1'',
            b_tag = js ''x'', b_templateIds = [Num 1]\<rparr> (js ''Bearer tok'')])"
proof -
  let ?s = "initial_state\<lparr>title := js ''T'', description := js ''D'', content := js ''see #1'',
              tag := js ''x''\<rparr>"
  let ?e = "\<lparr>accessToken = Some (js ''tok''), query_id = Some (js ''7'')\<rparr>"
  let ?request = "AxiosPut (js ''/api/blogposts/'' @ id_text (query_id ?e))
                    \<lparr>b_title = title ?s, b_description = description ?s, b_content = content ?s,
                     b_tag = tag ?s, b_templateIds = extractTemplateIds ?s\<rparr>
                    (js ''Bearer '' @ js ''tok'')"
  have fields: "title ?s \<noteq> []" "description ?s \<noteq> []" "content ?s \<noteq> []" "tag ?s \<noteq> []"
    by (simp_all add: js_def)
  have token: "accessToken ?e = Some (js ''tok'')" "js ''tok'' \<noteq> []"
    by (simp_all add: js_def)
  have ids: "extractTemplateIds ?s = [Num 1]"
  proof -
    have "hash_digit_runs (js ''see #1'') = [js ''1'']"
      by (simp add: js_def hash_def is_digit_def)
    moreover have "decimal_value (js ''1'') = 1"
      by (simp add: js_def decimal_value_def)
    moreover have "to_double 1 = Num 1"
      using to_double_safe_int [of 1] by simp
    ultimately show ?thesis
      by (simp add: extractTemplateIds_runs)
  qed
  have status: "(204::nat) \<noteq> 200"
    by simp
  from handleUpdatePost_outcomes
      [OF fields token refl [of ?request], of "Some (js ''Forbidden'')" 204] status
  show ?thesis
    by (simp add: ids) (simp add: initial_state_def js_def)
qed

text \<open>
  The claim C2 as it was stated has an error message set on every outcome but status 200.
  A request fulfilled with status 204 sets no error message (and no success message).
\<close>

theorem handleUpdatePost_status_204_counterexample:
  "error (fst (handleUpdatePost \<lparr>accessToken = Some (js ''tok''), query_id = Some (js ''7'')\<rparr>
                 (Fulfilled 204)
                 (initial_state\<lparr>title := js ''T'', description := js ''D'',
                    content := js ''see #1'', tag := js ''x''\<rparr>))) = None \<and>
   success (fst (handleUpdatePost \<lparr>accessToken = Some (js ''tok''), query_id = Some (js ''7'')\<rparr>
                 (Fulfilled 204)
                 (initial_state\<lparr>title := js ''T'', description := js ''D'',
                    content := js ''see #1'', tag := js ''x''\<rparr>))) = None"
  by (simp add: handleUpdatePost_def handleUpdatePost_try_def initial_state_def js_def)

end
